theory Spec2Isabelle
  imports Main "HOL-Library.Word"
begin

section \<open>Text, bytes and exceptions\<close>

text \<open>
  A Python \<open>str\<close> is a sequence of Unicode code points; it is modelled as a list of
  natural numbers, each below \<open>0x110000\<close>. A file holds bytes. \<open>ustr\<close> turns an
  ASCII literal of the theory into such a sequence.
\<close>

type_synonym utext = "nat list"
type_synonym byte = "8 word"

definition ustr :: "string \<Rightarrow> utext" where
  "ustr s = map of_char s"

text \<open>
  The exceptions the handler can meet. \<open>HTTPException\<close> is what Flask's
  \<open>request.json\<close> raises for a body it cannot deserialize (it carries its own
  description); the others are raised by the interpreter, the codec and the operating
  system. \<open>UnicodeEncodeError c i j\<close>: code point \<open>c\<close> at position \<open>i\<close>, the run of
  unencodable code points ending before position \<open>j\<close>. \<open>OSError n m p\<close>: errno,
  its message, the file name. \<open>OSError_nofile n m\<close>: the same exception when it carries no
  file name, as from a write or a close.
\<close>

datatype exn =
    HTTPException utext
  | TypeError utext
  | KeyError utext
  | UnicodeEncodeError nat nat nat
  | OSError nat string string
  | OSError_nofile nat string

function dec_digits :: "nat \<Rightarrow> utext" where
  "dec_digits n = (if n < 10 then [48 + n] else dec_digits (n div 10) @ [48 + n mod 10])"
  by pat_completeness auto
termination
  by (relation "measure (\<lambda>n. n)") auto

declare dec_digits.simps [simp del]

definition hex_digit :: "nat \<Rightarrow> nat" where
  "hex_digit d = (if d < 10 then 48 + d else 87 + d)"

definition hex4 :: "nat \<Rightarrow> utext" where
  "hex4 c = map hex_digit [c div 4096 mod 16, c div 256 mod 16, c div 16 mod 16, c mod 16]"

text \<open>
  \<open>str(e)\<close> for each exception, as CPython 3.11 words it. The key of a \<open>KeyError\<close>
  is shown as its \<open>repr\<close>; the handler only ever looks up the three literal keys, whose
  \<open>repr\<close> is the key between single quotes, and the same holds for the file name.
\<close>

fun exn_str :: "exn \<Rightarrow> utext" where
  "exn_str (HTTPException d) = d"
| "exn_str (TypeError m) = m"
| "exn_str (KeyError k) = ustr [CHR 0x27] @ k @ ustr [CHR 0x27]"
| "exn_str (UnicodeEncodeError c i j) =
     (if j = Suc i
      then ustr [CHR 0x27] @ ustr ''utf-8'' @ ustr [CHR 0x27] @ ustr '' codec can't encode character ''
             @ ustr [CHR 0x27, CHR 0x5C] @ ustr ''u'' @ hex4 c @ ustr [CHR 0x27]
             @ ustr '' in position '' @ dec_digits i @ ustr '': surrogates not allowed''
      else ustr [CHR 0x27] @ ustr ''utf-8'' @ ustr [CHR 0x27] @ ustr '' codec can't encode characters''
             @ ustr '' in position '' @ dec_digits i @ ustr ''-'' @ dec_digits (j - 1)
             @ ustr '': surrogates not allowed'')"
| "exn_str (OSError n m p) =
     ustr ''[Errno '' @ dec_digits n @ ustr ''] '' @ ustr m @ ustr '': ''
       @ ustr [CHR 0x27] @ ustr p @ ustr [CHR 0x27]"
| "exn_str (OSError_nofile n m) = ustr ''[Errno '' @ dec_digits n @ ustr ''] '' @ ustr m"

section \<open>JSON values as Python objects\<close>

text \<open>
  What \<open>request.json\<close> returns: \<open>None\<close>, a bool, an int, a float, a str, a list or a
  dict. Binary floating point is not modelled: a float is carried by the characters \<open>str()\<close>
  gives for it. A dict is the list of its items in insertion order, keys distinct.
\<close>

datatype json =
    JNull
  | JBool bool
  | JInt int
  | JFloat utext
  | JStr utext
  | JArr "json list"
  | JObj "(utext \<times> json) list"

text \<open>The name Python gives to the type of a value, used in its \<open>TypeError\<close> messages.\<close>

fun type_name :: "json \<Rightarrow> string" where
  "type_name JNull = ''NoneType''"
| "type_name (JBool _) = ''bool''"
| "type_name (JInt _) = ''int''"
| "type_name (JFloat _) = ''float''"
| "type_name (JStr _) = ''str''"
| "type_name (JArr _) = ''list''"
| "type_name (JObj _) = ''dict''"

text \<open>
  \<open>for item in data\<close>: a list yields its elements, a dict its keys, a str its
  characters; anything else is not iterable.
\<close>

fun py_iter :: "json \<Rightarrow> exn + json list" where
  "py_iter (JArr xs) = Inr xs"
| "py_iter (JObj kvs) = Inr (map (\<lambda>kv. JStr (fst kv)) kvs)"
| "py_iter (JStr s) = Inr (map (\<lambda>c. JStr [c]) s)"
| "py_iter v =
     Inl (TypeError (ustr [CHR 0x27] @ ustr (type_name v) @ ustr [CHR 0x27]
            @ ustr '' object is not iterable''))"

text \<open>\<open>item[key]\<close> with a str key: only a dict can answer.\<close>

fun py_getitem :: "json \<Rightarrow> utext \<Rightarrow> exn + json" where
  "py_getitem (JObj kvs) k = (case map_of kvs k of None \<Rightarrow> Inl (KeyError k) | Some v \<Rightarrow> Inr v)"
| "py_getitem (JArr _) k = Inl (TypeError (ustr ''list indices must be integers or slices, not str''))"
| "py_getitem (JStr _) k =
     Inl (TypeError (ustr ''string indices must be integers, not ''
            @ ustr [CHR 0x27] @ ustr ''str'' @ ustr [CHR 0x27]))"
| "py_getitem v k =
     Inl (TypeError (ustr [CHR 0x27] @ ustr (type_name v) @ ustr [CHR 0x27]
            @ ustr '' object is not subscriptable''))"

text \<open>
  \<open>str(v)\<close>. What it gives for a list or a dict is built from the \<open>repr\<close> of its elements,
  which depends on the Unicode database; it is taken as the parameter \<open>rp\<close>.
\<close>

definition py_str_int :: "int \<Rightarrow> utext" where
  "py_str_int i = (if i < 0 then 45 # dec_digits (nat (- i)) else dec_digits (nat i))"

fun py_str :: "(json \<Rightarrow> utext) \<Rightarrow> json \<Rightarrow> utext" where
  "py_str rp JNull = ustr ''None''"
| "py_str rp (JBool b) = (if b then ustr ''True'' else ustr ''False'')"
| "py_str rp (JInt i) = py_str_int i"
| "py_str rp (JFloat t) = t"
| "py_str rp (JStr s) = s"
| "py_str rp v = rp v"

section \<open>The csv writer (excel dialect)\<close>

text \<open>
  \<open>csv.writer(f)\<close> uses the excel dialect: delimiter \<open>,\<close> (44), quotechar \<open>"\<close> (34),
  doublequote, lineterminator CR LF (13, 10), minimal quoting, no escapechar. A field is
  quoted when it holds the delimiter, the quotechar or a character of the line terminator;
  inside the quotes each quotechar is doubled. \<open>None\<close> is written as the empty field, a str
  as it is, anything else through \<open>str()\<close>. This is the writer of CPython 3.11 and later,
  for which no character needs an escapechar.
\<close>

definition field_text :: "(json \<Rightarrow> utext) \<Rightarrow> json \<Rightarrow> utext" where
  "field_text rp v = (case v of JNull \<Rightarrow> [] | JStr s \<Rightarrow> s | _ \<Rightarrow> py_str rp v)"

definition special :: "nat \<Rightarrow> bool" where
  "special c = (c = 44 \<or> c = 34 \<or> c = 13 \<or> c = 10)"

definition needs_quote :: "utext \<Rightarrow> bool" where
  "needs_quote s = list_ex special s"

fun double_quotes :: "utext \<Rightarrow> utext" where
  "double_quotes [] = []"
| "double_quotes (c # cs) = (if c = 34 then 34 # 34 # double_quotes cs else c # double_quotes cs)"

definition join_append :: "utext \<Rightarrow> utext" where
  "join_append s = (if needs_quote s then 34 # double_quotes s @ [34] else s)"

fun join_fields :: "utext list \<Rightarrow> utext" where
  "join_fields [] = []"
| "join_fields [s] = join_append s"
| "join_fields (s # ss) = join_append s @ 44 # join_fields ss"

text \<open>A record of one empty field is written as a pair of quotes, so that it is not an empty line.\<close>

definition csv_line :: "utext list \<Rightarrow> utext" where
  "csv_line ss =
     (let r = join_fields ss in (if ss \<noteq> [] \<and> r = [] then [34, 34] else r) @ [13, 10])"

definition csv_record :: "(json \<Rightarrow> utext) \<Rightarrow> json list \<Rightarrow> utext" where
  "csv_record rp row = csv_line (map (field_text rp) row)"

section \<open>The file object: encoding utf-8-sig\<close>

text \<open>
  \<open>codecs.utf_8_encode\<close>, which the utf-8-sig encoder calls on every string written.
\<close>

definition is_surrogate :: "nat \<Rightarrow> bool" where
  "is_surrogate c = (55296 \<le> c \<and> c \<le> 57343)"

definition utf8_char :: "nat \<Rightarrow> byte list" where
  "utf8_char c =
     (if c < 128 then [of_nat c]
      else if c < 2048 then [of_nat (192 + c div 64), of_nat (128 + c mod 64)]
      else if c < 65536 then
        [of_nat (224 + c div 4096), of_nat (128 + c div 64 mod 64), of_nat (128 + c mod 64)]
      else
        [of_nat (240 + c div 262144 mod 8), of_nat (128 + c div 4096 mod 64),
         of_nat (128 + c div 64 mod 64), of_nat (128 + c mod 64)])"

text \<open>
  One code point in one to four bytes (the lead byte of the longest form keeps three
  payload bits, as \<open>0xF0 | (c >> 18)\<close> does for a code point below \<open>0x110000\<close>).
  Encoding stops at the first surrogate: a lone
  surrogate has no UTF-8 form.
\<close>

fun encode_from :: "nat \<Rightarrow> utext \<Rightarrow> exn + byte list" where
  "encode_from i [] = Inr []"
| "encode_from i (c # cs) =
     (if is_surrogate c
      then Inl (UnicodeEncodeError c i (i + length (takeWhile is_surrogate (c # cs))))
      else (case encode_from (Suc i) cs of Inl e \<Rightarrow> Inl e | Inr bs \<Rightarrow> Inr (utf8_char c @ bs)))"

definition utf_8_encode :: "utext \<Rightarrow> exn + byte list" where
  "utf_8_encode t = encode_from 0 t"

definition BOM_UTF8 :: "byte list" where
  "BOM_UTF8 = [0xEF, 0xBB, 0xBF]"

text \<open>
  The open file: the bytes written so far, and whether the signature is still to be
  emitted (the incremental encoder puts it before the first string it encodes). A write
  that cannot be encoded raises and writes nothing.
\<close>

record tfile =
  buf :: "byte list"
  first :: bool

definition new_file :: tfile where
  "new_file = \<lparr>buf = [], first = True\<rparr>"

definition f_write :: "utext \<Rightarrow> tfile \<Rightarrow> exn + tfile" where
  "f_write t f =
     (case utf_8_encode t of
        Inl e \<Rightarrow> Inl e
      | Inr bs \<Rightarrow> Inr \<lparr>buf = buf f @ (if first f then BOM_UTF8 else []) @ bs, first = False\<rparr>)"

definition writer_writerow :: "(json \<Rightarrow> utext) \<Rightarrow> json list \<Rightarrow> tfile \<Rightarrow> exn + tfile" where
  "writer_writerow rp row f = f_write (csv_record rp row) f"

section \<open>The file system and the process\<close>

text \<open>
  The part of the world the program touches: the directories that exist, the files with
  their bytes, for some paths the error (errno, message) with which the operating system
  refuses to create or open them for writing, and the lines printed to standard output.
\<close>

record world =
  dirs :: "string set"
  files :: "string \<rightharpoonup> byte list"
  denied :: "string \<rightharpoonup> nat \<times> string"
  stdout :: "utext list"

text \<open>\<open>os.path.join\<close> of two components, with the POSIX separator.\<close>

definition os_path_join :: "string \<Rightarrow> string \<Rightarrow> string" where
  "os_path_join a b =
     (if b \<noteq> [] \<and> hd b = CHR ''/'' then b
      else if a = [] \<or> last a = CHR ''/'' then a @ b
      else a @ ''/'' @ b)"

definition SAVE_FOLDER :: string where
  "SAVE_FOLDER = ''SwapDatas''"

definition SAVE_PATH :: string where
  "SAVE_PATH = os_path_join SAVE_FOLDER ''InputDatas.csv''"

text \<open>The directory in which the operating system looks a path up: what precedes its last separator.\<close>

definition parent_dir :: "string \<Rightarrow> string" where
  "parent_dir p =
     (let h = rev (dropWhile (\<lambda>c. c \<noteq> CHR ''/'') (rev p))
      in if h \<noteq> [] \<and> \<not> list_all (\<lambda>c. c = CHR ''/'') h
         then rev (dropWhile (\<lambda>c. c = CHR ''/'') (rev h)) else h)"

definition os_path_exists :: "string \<Rightarrow> world \<Rightarrow> bool" where
  "os_path_exists p w = (p \<in> dirs w \<or> p \<in> dom (files w))"

definition os_makedirs :: "string \<Rightarrow> world \<Rightarrow> exn + world" where
  "os_makedirs p w =
     (if os_path_exists p w then Inl (OSError 17 ''File exists'' p)
      else (case denied w p of
              Some (n, m) \<Rightarrow> Inl (OSError n m p)
            | None \<Rightarrow> Inr (w\<lparr>dirs := insert p (dirs w)\<rparr>)))"

text \<open>
  \<open>open(p, mode='w')\<close>: the directory of the path must exist; then the file is created
  or truncated, unless the operating system refuses.
\<close>

definition open_w :: "string \<Rightarrow> world \<Rightarrow> exn + world" where
  "open_w p w =
     (if parent_dir p \<noteq> [] \<and> parent_dir p \<in> dom (files w) then Inl (OSError 20 ''Not a directory'' p)
      else if parent_dir p \<noteq> [] \<and> parent_dir p \<notin> dirs w
        then Inl (OSError 2 ''No such file or directory'' p)
      else if p \<in> dirs w then Inl (OSError 21 ''Is a directory'' p)
      else (case denied w p of
              Some (n, m) \<Rightarrow> Inl (OSError n m p)
            | None \<Rightarrow> Inr (w\<lparr>files := (files w)(p \<mapsto> [])\<rparr>)))"

text \<open>Leaving the \<open>with\<close> block closes the file, on every path: what was written reaches the disk.\<close>

definition f_close :: "string \<Rightarrow> tfile \<Rightarrow> world \<Rightarrow> world" where
  "f_close p f w = w\<lparr>files := (files w)(p \<mapsto> buf f)\<rparr>"

definition print :: "utext \<Rightarrow> world \<Rightarrow> world" where
  "print t w = w\<lparr>stdout := stdout w @ [t]\<rparr>"

text \<open>
  The module body, run once when the process starts:
  \<^verbatim>\<open>if not os.path.exists(SAVE_FOLDER): os.makedirs(SAVE_FOLDER)\<close>
\<close>

definition startup :: "world \<Rightarrow> exn + world" where
  "startup w = (if \<not> os_path_exists SAVE_FOLDER w then os_makedirs SAVE_FOLDER w else Inr w)"

section \<open>The handler of POST /api/save-config\<close>

record response =
  status_code :: nat
  status :: string
  message :: utext

definition header_row :: "json list" where
  "header_row = [JStr (ustr ''Panel''), JStr (ustr ''Parameter''), JStr (ustr ''Value'')]"

text \<open>
  The list \<open>[item['panel'], item['parameter'], item['value']]\<close> is built, left to right,
  before \<open>writerow\<close> is called: a failing lookup writes nothing of that row.
\<close>

definition item_row :: "json \<Rightarrow> exn + json list" where
  "item_row item =
     (case py_getitem item (ustr ''panel'') of
        Inl e \<Rightarrow> Inl e
      | Inr a \<Rightarrow>
          (case py_getitem item (ustr ''parameter'') of
             Inl e \<Rightarrow> Inl e
           | Inr b \<Rightarrow>
               (case py_getitem item (ustr ''value'') of
                  Inl e \<Rightarrow> Inl e
                | Inr c \<Rightarrow> Inr [a, b, c])))"

text \<open>The loop \<open>for item in data\<close>, over the items the iteration yields.\<close>

fun write_items :: "(json \<Rightarrow> utext) \<Rightarrow> json list \<Rightarrow> tfile \<Rightarrow> exn option \<times> tfile" where
  "write_items rp [] f = (None, f)"
| "write_items rp (item # rest) f =
     (case item_row item of
        Inl e \<Rightarrow> (Some e, f)
      | Inr row \<Rightarrow>
          (case writer_writerow rp row f of
             Inl e \<Rightarrow> (Some e, f)
           | Inr f' \<Rightarrow> write_items rp rest f'))"

text \<open>The body of the \<open>with\<close> block: the header row, then the loop.\<close>

definition with_body :: "(json \<Rightarrow> utext) \<Rightarrow> json \<Rightarrow> tfile \<Rightarrow> exn option \<times> tfile" where
  "with_body rp data f =
     (case writer_writerow rp header_row f of
        Inl e \<Rightarrow> (Some e, f)
      | Inr f1 \<Rightarrow>
          (case py_iter data of
             Inl e \<Rightarrow> (Some e, f1)
           | Inr items \<Rightarrow> write_items rp items f1))"

definition on_success :: "world \<Rightarrow> response \<times> world" where
  "on_success w =
     (\<lparr>status_code = 200, status = ''success'', message = ustr ''Saved to '' @ ustr SAVE_PATH\<rparr>,
      print (ustr ''Successfully saved to '' @ ustr SAVE_PATH) w)"

definition on_error :: "exn \<Rightarrow> world \<Rightarrow> response \<times> world" where
  "on_error e w =
     (\<lparr>status_code = 500, status = ''error'', message = exn_str e\<rparr>,
      print (ustr ''Error: '' @ exn_str e) w)"

text \<open>
  \<open>save_config\<close>. The request is given by what \<open>request.json\<close> does with it: it raises,
  or it returns the deserialized body (which of the two, and what is returned, depends on
  the body and on the Content-Type header of the request). Here the device does not fail
  once the file is open; failures of the device are added further down.
\<close>

definition save_config :: "(json \<Rightarrow> utext) \<Rightarrow> exn + json \<Rightarrow> world \<Rightarrow> response \<times> world" where
  "save_config rp req w =
     (case req of
        Inl e \<Rightarrow> on_error e w
      | Inr data \<Rightarrow>
          (case open_w SAVE_PATH w of
             Inl e \<Rightarrow> on_error e w
           | Inr w1 \<Rightarrow>
               (case with_body rp data new_file of
                  (Some e, f) \<Rightarrow> on_error e (f_close SAVE_PATH f w1)
                | (None, f) \<Rightarrow> on_success (f_close SAVE_PATH f w1))))"

text \<open>A sequence of requests, served one after the other.\<close>

fun run :: "(json \<Rightarrow> utext) \<Rightarrow> (exn + json) list \<Rightarrow> world \<Rightarrow> world" where
  "run rp [] w = w"
| "run rp (req # reqs) w = run rp reqs (snd (save_config rp req w))"

section \<open>The handler on a device that can fail\<close>

text \<open>
  In \<open>save_config\<close> above every write reaches the file. The operating system can also
  fail while the file is written: a call of \<open>write\<close>, or the flush that \<open>close\<close>
  performs, raises an \<open>OSError\<close> without file name, and the file then holds whatever had
  reached the device. The behaviour of the device during one request is given by: for the
  \<open>k\<close>-th call of \<open>write\<close> (the header row is call 0) the error (errno, message) with
  which it fails, if it does; the error with which \<open>close\<close> fails, if it does; and, of
  the bytes handed over, what the file holds once an operation has failed.
\<close>

record device =
  write_fault :: "nat \<Rightarrow> (nat \<times> string) option"
  close_fault :: "(nat \<times> string) option"
  remains :: "byte list \<Rightarrow> byte list"

text \<open>
  The open file: the bytes handed over so far, whether the signature is still due, the
  number of calls of \<open>write\<close> so far, whether one of them has failed.
\<close>

record dfile =
  handed :: "byte list"
  sig_due :: bool
  writes :: nat
  failed :: bool

definition new_dfile :: dfile where
  "new_dfile = \<lparr>handed = [], sig_due = True, writes = 0, failed = False\<rparr>"

text \<open>
  A write encodes first, and raises with nothing handed over when it cannot; then the
  device may fail.
\<close>

definition f_write_on :: "device \<Rightarrow> utext \<Rightarrow> dfile \<Rightarrow> exn option \<times> dfile" where
  "f_write_on dev t f =
     (case utf_8_encode t of
        Inl e \<Rightarrow> (Some e, f)
      | Inr bs \<Rightarrow>
          (case write_fault dev (writes f) of
             Some (n, m) \<Rightarrow>
               (Some (OSError_nofile n m),
                \<lparr>handed = handed f @ (if sig_due f then BOM_UTF8 else []) @ bs, sig_due = False,
                 writes = Suc (writes f), failed = True\<rparr>)
           | None \<Rightarrow>
               (None,
                \<lparr>handed = handed f @ (if sig_due f then BOM_UTF8 else []) @ bs, sig_due = False,
                 writes = Suc (writes f), failed = failed f\<rparr>)))"

fun write_items_on :: "(json \<Rightarrow> utext) \<Rightarrow> device \<Rightarrow> json list \<Rightarrow> dfile \<Rightarrow> exn option \<times> dfile" where
  "write_items_on rp dev [] f = (None, f)"
| "write_items_on rp dev (item # rest) f =
     (case item_row item of
        Inl e \<Rightarrow> (Some e, f)
      | Inr row \<Rightarrow>
          (case f_write_on dev (csv_record rp row) f of
             (Some e, f') \<Rightarrow> (Some e, f')
           | (None, f') \<Rightarrow> write_items_on rp dev rest f'))"

definition with_body_on :: "(json \<Rightarrow> utext) \<Rightarrow> device \<Rightarrow> json \<Rightarrow> dfile \<Rightarrow> exn option \<times> dfile" where
  "with_body_on rp dev data f =
     (case f_write_on dev (csv_record rp header_row) f of
        (Some e, f') \<Rightarrow> (Some e, f')
      | (None, f1) \<Rightarrow>
          (case py_iter data of
             Inl e \<Rightarrow> (Some e, f1)
           | Inr items \<Rightarrow> write_items_on rp dev items f1))"

text \<open>
  Closing flushes. When the flush fails, \<open>close\<close> raises and the file holds what the device
  kept; so it does when an earlier write had failed. Otherwise the file holds all the
  bytes handed over.
\<close>

definition f_close_on :: "device \<Rightarrow> string \<Rightarrow> dfile \<Rightarrow> world \<Rightarrow> exn option \<times> world" where
  "f_close_on dev p f w =
     (case close_fault dev of
        Some (n, m) \<Rightarrow>
          (Some (OSError_nofile n m), w\<lparr>files := (files w)(p \<mapsto> remains dev (handed f))\<rparr>)
      | None \<Rightarrow>
          (None,
           w\<lparr>files := (files w)(p \<mapsto> (if failed f then remains dev (handed f) else handed f))\<rparr>))"

text \<open>
  The handler. Leaving the \<open>with\<close> block closes the file on every path; an exception of
  \<open>close\<close> replaces the one that was leaving the block.
\<close>

definition save_config_on ::
    "(json \<Rightarrow> utext) \<Rightarrow> device \<Rightarrow> exn + json \<Rightarrow> world \<Rightarrow> response \<times> world" where
  "save_config_on rp dev req w =
     (case req of
        Inl e \<Rightarrow> on_error e w
      | Inr data \<Rightarrow>
          (case open_w SAVE_PATH w of
             Inl e \<Rightarrow> on_error e w
           | Inr w1 \<Rightarrow>
               (case with_body_on rp dev data new_dfile of
                  (r, f) \<Rightarrow>
                    (case f_close_on dev SAVE_PATH f w1 of
                       (Some e, w2) \<Rightarrow> on_error e w2
                     | (None, w2) \<Rightarrow>
                         (case r of Some e \<Rightarrow> on_error e w2 | None \<Rightarrow> on_success w2)))))"

text \<open>A sequence of requests, each with the behaviour of the device while it is served.\<close>

fun run_on :: "(json \<Rightarrow> utext) \<Rightarrow> (device \<times> (exn + json)) list \<Rightarrow> world \<Rightarrow> world" where
  "run_on rp [] w = w"
| "run_on rp (s # rest) w = run_on rp rest (snd (save_config_on rp (fst s) (snd s) w))"

section \<open>Notions used to state the properties\<close>

subsection \<open>What one item contributes\<close>

text \<open>
  The pure UTF-8 form of a text, and the texts that have one.
\<close>

definition utf8 :: "utext \<Rightarrow> byte list" where
  "utf8 t = concat (map utf8_char t)"

definition encodable :: "utext \<Rightarrow> bool" where
  "encodable t = (\<not> list_ex is_surrogate t)"

text \<open>An item from which the three lookups succeed: a dict holding the three keys.\<close>

fun has_keys :: "json \<Rightarrow> bool" where
  "has_keys (JObj kvs) =
     (map_of kvs (ustr ''panel'') \<noteq> None \<and> map_of kvs (ustr ''parameter'') \<noteq> None
      \<and> map_of kvs (ustr ''value'') \<noteq> None)"
| "has_keys v = False"

text \<open>
  The three fields of an item as the writer sees them, the record it writes for the item,
  the exception the item raises (in a lookup, or when its record is encoded), if any.
\<close>

definition item_fields :: "(json \<Rightarrow> utext) \<Rightarrow> json \<Rightarrow> utext list" where
  "item_fields rp item = (case item_row item of Inl e \<Rightarrow> [] | Inr row \<Rightarrow> map (field_text rp) row)"

definition item_text :: "(json \<Rightarrow> utext) \<Rightarrow> json \<Rightarrow> utext" where
  "item_text rp item = (case item_row item of Inl e \<Rightarrow> [] | Inr row \<Rightarrow> csv_record rp row)"

definition item_failure :: "(json \<Rightarrow> utext) \<Rightarrow> json \<Rightarrow> exn option" where
  "item_failure rp item =
     (case item_row item of
        Inl e \<Rightarrow> Some e
      | Inr row \<Rightarrow> (case utf_8_encode (csv_record rp row) of Inl e \<Rightarrow> Some e | Inr bs \<Rightarrow> None))"

definition item_ok :: "(json \<Rightarrow> utext) \<Rightarrow> json \<Rightarrow> bool" where
  "item_ok rp item = (item_failure rp item = None)"

definition first_failure :: "(json \<Rightarrow> utext) \<Rightarrow> json list \<Rightarrow> exn option" where
  "first_failure rp items =
     (case dropWhile (item_ok rp) items of [] \<Rightarrow> None | i # _ \<Rightarrow> item_failure rp i)"

text \<open>The table for a list of items: the header line, then one record per item; and the file holding it.\<close>

definition header_fields :: "utext list" where
  "header_fields = [ustr ''Panel'', ustr ''Parameter'', ustr ''Value'']"

definition header_line :: utext where
  "header_line = ustr ''Panel,Parameter,Value'' @ [13, 10]"

definition table_text :: "(json \<Rightarrow> utext) \<Rightarrow> json list \<Rightarrow> utext" where
  "table_text rp items = header_line @ concat (map (item_text rp) items)"

definition file_bytes :: "(json \<Rightarrow> utext) \<Rightarrow> json list \<Rightarrow> byte list" where
  "file_bytes rp items = BOM_UTF8 @ utf8 (table_text rp items)"

text \<open>The exception a request raises in the handler, if any: the first one met.\<close>

definition raised :: "(json \<Rightarrow> utext) \<Rightarrow> exn + json \<Rightarrow> world \<Rightarrow> exn option" where
  "raised rp req w =
     (case req of
        Inl e \<Rightarrow> Some e
      | Inr data \<Rightarrow>
          (case open_w SAVE_PATH w of
             Inl e \<Rightarrow> Some e
           | Inr w1 \<Rightarrow> (case py_iter data of Inl e \<Rightarrow> Some e | Inr items \<Rightarrow> first_failure rp items)))"

definition ok_response :: response where
  "ok_response =
     \<lparr>status_code = 200, status = ''success'', message = ustr ''Saved to SwapDatas/InputDatas.csv''\<rparr>"

definition error_response :: "exn \<Rightarrow> response" where
  "error_response e = \<lparr>status_code = 500, status = ''error'', message = exn_str e\<rparr>"

subsection \<open>Lines of a file\<close>

text \<open>
  The lines of a file as a reader with universal newlines splits them: a line ends at
  CR LF, at CR or at LF (in UTF-8 the bytes 13 and 10 stand for nothing else); the
  terminators are dropped, and a last line without terminator counts.
\<close>

fun lines_from :: "byte list \<Rightarrow> byte list \<Rightarrow> byte list list" where
  "lines_from cur [] = (if cur = [] then [] else [cur])"
| "lines_from cur [b] = (if b = 13 \<or> b = 10 then [cur] else [cur @ [b]])"
| "lines_from cur (b # b' # bs) =
     (if b = 13 \<and> b' = 10 then cur # lines_from [] bs
      else if b = 13 \<or> b = 10 then cur # lines_from [] (b' # bs)
      else lines_from (cur @ [b]) (b' # bs))"

definition byte_lines :: "byte list \<Rightarrow> byte list list" where
  "byte_lines bs = lines_from [] bs"

text \<open>Bytes among which there is no line terminator.\<close>

definition plain_bytes :: "byte list \<Rightarrow> bool" where
  "plain_bytes bs = (\<forall>b\<in>set bs. b \<noteq> 13 \<and> b \<noteq> 10)"

definition ascii :: "string \<Rightarrow> byte list" where
  "ascii s = map of_char s"

definition no_newline :: "utext \<Rightarrow> bool" where
  "no_newline s = (\<not> list_ex (\<lambda>c. c = 13 \<or> c = 10) s)"

subsection \<open>A csv reader\<close>

text \<open>
  The state machine of \<open>csv.reader\<close> for the excel dialect (not strict, no escapechar),
  run over the whole text of a file opened with \<open>newline=''\<close>, without the limit on the
  size of a field. Arguments: the state, the field and the fields read so far of the
  current record, the rest of the text; the result is the list of records. Outside quotes
  CR LF, CR or LF ends the record; a line with nothing on it gives the empty record.
\<close>

datatype rstate = START_RECORD | START_FIELD | IN_FIELD | IN_QUOTED_FIELD | QUOTE_IN_QUOTED_FIELD

function reader :: "rstate \<Rightarrow> utext \<Rightarrow> utext list \<Rightarrow> utext \<Rightarrow> utext list list" where
  "reader st fld flds [] = (if st = START_RECORD then [] else [flds @ [fld]])"
| "reader st fld flds (c # cs) =
     (if st = IN_QUOTED_FIELD then
        (if c = 34 then reader QUOTE_IN_QUOTED_FIELD fld flds cs
         else reader IN_QUOTED_FIELD (fld @ [c]) flds cs)
      else if c = 13 \<or> c = 10 then
        (if st = START_RECORD then [] else flds @ [fld])
          # reader START_RECORD [] [] (if c = 13 \<and> cs \<noteq> [] \<and> hd cs = 10 then tl cs else cs)
      else if c = 44 then reader START_FIELD [] (flds @ [fld]) cs
      else if c = 34 then
        (if st = QUOTE_IN_QUOTED_FIELD then reader IN_QUOTED_FIELD (fld @ [c]) flds cs
         else if st = IN_FIELD then reader IN_FIELD (fld @ [c]) flds cs
         else reader IN_QUOTED_FIELD fld flds cs)
      else reader IN_FIELD (fld @ [c]) flds cs)"
  by pat_completeness auto
termination
  by (relation "measure (\<lambda>(st, fld, flds, t). length t)") auto

definition csv_reader :: "utext \<Rightarrow> utext list list" where
  "csv_reader t = reader START_RECORD [] [] t"

subsection \<open>Reading the file back\<close>

text \<open>
  A strict UTF-8 decoder: \<open>decode1\<close> reads one code point from the head of the bytes and
  tells how many continuation bytes it took; overlong forms, surrogates and values from
  \<open>0x110000\<close> on are refused. \<open>utf_8_sig_decode\<close> drops the signature when there is one.
\<close>

definition cont :: "byte list \<Rightarrow> nat \<Rightarrow> bool" where
  "cont bs i = (i < length bs \<and> 128 \<le> unat (bs ! i) \<and> unat (bs ! i) < 192)"

definition pay :: "byte list \<Rightarrow> nat \<Rightarrow> nat" where
  "pay bs i = unat (bs ! i) - 128"

definition decode1 :: "byte list \<Rightarrow> (nat \<times> nat) option" where
  "decode1 bs =
     (let n = unat (hd bs) in
      if n < 128 then Some (n, 0)
      else if 194 \<le> n \<and> n < 224 \<and> cont bs 1 then Some ((n - 192) * 64 + pay bs 1, 1)
      else if 224 \<le> n \<and> n < 240 \<and> cont bs 1 \<and> cont bs 2
              \<and> 2048 \<le> (n - 224) * 4096 + pay bs 1 * 64 + pay bs 2
              \<and> \<not> is_surrogate ((n - 224) * 4096 + pay bs 1 * 64 + pay bs 2)
        then Some ((n - 224) * 4096 + pay bs 1 * 64 + pay bs 2, 2)
      else if 240 \<le> n \<and> n < 245 \<and> cont bs 1 \<and> cont bs 2 \<and> cont bs 3
              \<and> 65536 \<le> (n - 240) * 262144 + pay bs 1 * 4096 + pay bs 2 * 64 + pay bs 3
              \<and> (n - 240) * 262144 + pay bs 1 * 4096 + pay bs 2 * 64 + pay bs 3 < 1114112
        then Some ((n - 240) * 262144 + pay bs 1 * 4096 + pay bs 2 * 64 + pay bs 3, 3)
      else None)"

function utf_8_decode :: "byte list \<Rightarrow> utext option" where
  "utf_8_decode bs =
     (if bs = [] then Some []
      else (case decode1 bs of
              None \<Rightarrow> None
            | Some (c, k) \<Rightarrow> map_option ((#) c) (utf_8_decode (drop (Suc k) bs))))"
  by pat_completeness auto
termination
  by (relation "measure length") auto

declare utf_8_decode.simps [simp del]

definition utf_8_sig_decode :: "byte list \<Rightarrow> utext option" where
  "utf_8_sig_decode bs =
     (if take 3 bs = BOM_UTF8 then utf_8_decode (drop 3 bs) else utf_8_decode bs)"

text \<open>The records a csv reader gets from the bytes of a file opened with encoding utf-8-sig.\<close>

definition read_csv_file :: "byte list \<Rightarrow> utext list list option" where
  "read_csv_file bs = map_option csv_reader (utf_8_sig_decode bs)"

text \<open>
  A code point of Unicode that is not a surrogate, and a text made of such: what a Python
  \<open>str\<close> holds when it can be written to a UTF-8 file.
\<close>

definition valid_cp :: "nat \<Rightarrow> bool" where
  "valid_cp c = (c < 1114112 \<and> \<not> is_surrogate c)"

definition valid_text :: "utext \<Rightarrow> bool" where
  "valid_text t = list_all valid_cp t"

text \<open>
  A text all of whose members are code points of Unicode, as those of every Python \<open>str\<close>
  are (a lone surrogate is one of them); and a request all of whose items have such
  fields.
\<close>

definition unicode_text :: "utext \<Rightarrow> bool" where
  "unicode_text t = list_all (\<lambda>c. c < 1114112) t"

definition request_unicode :: "(json \<Rightarrow> utext) \<Rightarrow> exn + json \<Rightarrow> bool" where
  "request_unicode rp req =
     (case req of
        Inl e \<Rightarrow> True
      | Inr data \<Rightarrow>
          (case py_iter data of
             Inl e \<Rightarrow> True
           | Inr items \<Rightarrow> list_all (\<lambda>i. list_all unicode_text (item_fields rp i)) items))"

text \<open>
  A well-formed file: read back, its first record is the header row and each of the
  others has three fields. The invariant: the persisted file, when there is one, is
  well-formed.
\<close>

definition wf_file :: "byte list \<Rightarrow> bool" where
  "wf_file bs =
     (case read_csv_file bs of
        Some (h # rows) \<Rightarrow> h = header_fields \<and> list_all (\<lambda>r. length r = 3) rows
      | _ \<Rightarrow> False)"

definition file_inv :: "world \<Rightarrow> bool" where
  "file_inv w = (case files w SAVE_PATH of None \<Rightarrow> True | Some bs \<Rightarrow> wf_file bs)"

subsection \<open>Concrete worlds and bodies\<close>

text \<open>
  A world in which the folder exists and nothing is refused, one in which the folder is
  missing, and a body of scalars. The text of a list or dict is never asked for on such
  bodies; \<open>no_repr\<close> stands in for it.
\<close>

definition no_repr :: "json \<Rightarrow> utext" where
  "no_repr v = []"

definition world0 :: world where
  "world0 = \<lparr>dirs = {''SwapDatas''}, files = Map.empty, denied = Map.empty, stdout = []\<rparr>"

definition world_nodir :: world where
  "world_nodir = \<lparr>dirs = {}, files = Map.empty, denied = Map.empty, stdout = []\<rparr>"

definition obj :: "json \<Rightarrow> json \<Rightarrow> json \<Rightarrow> json" where
  "obj p q v = JObj [(ustr ''panel'', p), (ustr ''parameter'', q), (ustr ''value'', v)]"


definition example_body :: json where
  "example_body = JArr [obj (JStr (ustr ''Audio'')) (JStr (ustr ''Volume'')) (JInt 80)]"

subsection \<open>Conditions on the world and on the request\<close>

text \<open>
  When the destination can be opened for writing: the folder is a directory, the path is
  not one, and the operating system does not refuse.
\<close>

definition can_open :: "world \<Rightarrow> bool" where
  "can_open w =
     (SAVE_FOLDER \<notin> dom (files w) \<and> SAVE_FOLDER \<in> dirs w \<and> SAVE_PATH \<notin> dirs w
      \<and> denied w SAVE_PATH = None)"

text \<open>
  What opening the destination does: the exception it raises, if any. Two worlds in which
  the destination is equally writable: opening it succeeds in both, or fails in both with
  the same exception.
\<close>

definition open_outcome :: "world \<Rightarrow> exn option" where
  "open_outcome w = (case open_w SAVE_PATH w of Inl e \<Rightarrow> Some e | Inr w1 \<Rightarrow> None)"

definition same_writability :: "world \<Rightarrow> world \<Rightarrow> bool" where
  "same_writability w1 w2 = (open_outcome w1 = open_outcome w2)"

text \<open>
  The three causes of failure that the specification lists: the body is not JSON, an
  object of the submitted array lacks one of the three keys, the destination cannot be
  opened.
\<close>

fun lacks_key :: "json \<Rightarrow> bool" where
  "lacks_key (JObj kvs) = (\<not> has_keys (JObj kvs))"
| "lacks_key v = False"

definition listed_failure :: "exn + json \<Rightarrow> world \<Rightarrow> bool" where
  "listed_failure req w =
     (case req of
        Inl e \<Rightarrow> True
      | Inr data \<Rightarrow>
          (case data of JArr xs \<Rightarrow> list_ex lacks_key xs | _ \<Rightarrow> False) \<or> \<not> can_open w)"

text \<open>
  A world in which an earlier save left the table with the one row \<open>x,y,0\<close>, and one in
  which it left the header alone; a body whose second object lacks \<open>value\<close>; a request
  whose body is not JSON.
\<close>

definition world_prior :: world where
  "world_prior =
     \<lparr>dirs = {''SwapDatas''},
      files = [''SwapDatas/InputDatas.csv'' \<mapsto>
                 BOM_UTF8 @ ascii ''Panel,Parameter,Value'' @ [13, 10] @ ascii ''x,y,0'' @ [13, 10]],
      denied = Map.empty, stdout = []\<rparr>"

definition world_header :: world where
  "world_header =
     \<lparr>dirs = {''SwapDatas''},
      files = [''SwapDatas/InputDatas.csv'' \<mapsto> BOM_UTF8 @ ascii ''Panel,Parameter,Value'' @ [13, 10]],
      denied = Map.empty, stdout = []\<rparr>"

definition body_missing_value :: json where
  "body_missing_value =
     JArr [obj (JStr (ustr ''a'')) (JStr (ustr ''b'')) (JInt 1),
           JObj [(ustr ''panel'', JStr (ustr ''c'')), (ustr ''parameter'', JStr (ustr ''d''))],
           obj (JStr (ustr ''e'')) (JStr (ustr ''f'')) (JInt 2)]"

definition not_json :: "exn + json" where
  "not_json = Inl (HTTPException (ustr ''400 Bad Request''))"

subsection \<open>The device\<close>

text \<open>
  A device on which none of the writes \<open>0\<close> to \<open>n\<close> fails, nor the close. A device that
  never fails, and one that is full: the flush of \<open>close\<close> fails with errno 28 and nothing
  has reached the file.
\<close>

definition no_fault :: "device \<Rightarrow> nat \<Rightarrow> bool" where
  "no_fault dev n = ((\<forall>k\<le>n. write_fault dev k = None) \<and> close_fault dev = None)"

definition reliable :: device where
  "reliable = \<lparr>write_fault = (\<lambda>k. None), close_fault = None, remains = (\<lambda>bs. bs)\<rparr>"

definition full_device :: device where
  "full_device =
     \<lparr>write_fault = (\<lambda>k. None), close_fault = Some (28, ''No space left on device''),
      remains = (\<lambda>bs. [])\<rparr>"

text \<open>
  The exception that reaches the \<open>except\<close> clause, if any, on a device that can fail: in
  the loop the items are taken in order, the item with its write \<open>k\<close>.
\<close>

fun items_raised :: "(json \<Rightarrow> utext) \<Rightarrow> device \<Rightarrow> nat \<Rightarrow> json list \<Rightarrow> exn option" where
  "items_raised rp dev k [] = None"
| "items_raised rp dev k (i # rest) =
     (case item_failure rp i of
        Some e \<Rightarrow> Some e
      | None \<Rightarrow>
          (case write_fault dev k of
             Some (n, m) \<Rightarrow> Some (OSError_nofile n m)
           | None \<Rightarrow> items_raised rp dev (Suc k) rest))"

definition body_raised :: "(json \<Rightarrow> utext) \<Rightarrow> device \<Rightarrow> json \<Rightarrow> exn option" where
  "body_raised rp dev data =
     (case write_fault dev 0 of
        Some (n, m) \<Rightarrow> Some (OSError_nofile n m)
      | None \<Rightarrow> (case py_iter data of Inl e \<Rightarrow> Some e | Inr items \<Rightarrow> items_raised rp dev 1 items))"

definition raised_on :: "(json \<Rightarrow> utext) \<Rightarrow> device \<Rightarrow> exn + json \<Rightarrow> world \<Rightarrow> exn option" where
  "raised_on rp dev req w =
     (case req of
        Inl e \<Rightarrow> Some e
      | Inr data \<Rightarrow>
          (case open_w SAVE_PATH w of
             Inl e \<Rightarrow> Some e
           | Inr w1 \<Rightarrow>
               (case close_fault dev of
                  Some (n, m) \<Rightarrow> Some (OSError_nofile n m)
                | None \<Rightarrow> body_raised rp dev data)))"

text \<open>
  Whether the device failed while a request was served: the file was opened, and a write
  or the close failed. A sequence of requests during none of which the device failed.
\<close>

definition device_failed :: "(json \<Rightarrow> utext) \<Rightarrow> device \<Rightarrow> exn + json \<Rightarrow> world \<Rightarrow> bool" where
  "device_failed rp dev req w =
     (case req of
        Inl e \<Rightarrow> False
      | Inr data \<Rightarrow>
          (case open_w SAVE_PATH w of
             Inl e \<Rightarrow> False
           | Inr w1 \<Rightarrow>
               close_fault dev \<noteq> None \<or> failed (snd (with_body_on rp dev data new_dfile))))"

fun no_device_failure ::
    "(json \<Rightarrow> utext) \<Rightarrow> (device \<times> (exn + json)) list \<Rightarrow> world \<Rightarrow> bool" where
  "no_device_failure rp [] w = True"
| "no_device_failure rp (s # rest) w =
     (\<not> device_failed rp (fst s) (snd s) w
      \<and> no_device_failure rp rest (snd (save_config_on rp (fst s) (snd s) w)))"

text \<open>What the file holds after a request that opened it.\<close>

definition written_on :: "(json \<Rightarrow> utext) \<Rightarrow> device \<Rightarrow> json \<Rightarrow> byte list" where
  "written_on rp dev data =
     (if close_fault dev \<noteq> None \<or> failed (snd (with_body_on rp dev data new_dfile))
      then remains dev (handed (snd (with_body_on rp dev data new_dfile)))
      else handed (snd (with_body_on rp dev data new_dfile)))"

section \<open>Auxiliary facts\<close>

lemma utf8_Nil [simp]: "utf8 [] = []"
  by (simp add: utf8_def)

lemma utf8_append: "utf8 (a @ b) = utf8 a @ utf8 b"
  by (simp add: utf8_def)

lemma encode_from_ok: "encodable t \<Longrightarrow> encode_from i t = Inr (utf8 t)"
  by (induction t arbitrary: i) (auto simp: encodable_def utf8_def)

lemma encode_from_Inr: "encode_from i t = Inr bs \<Longrightarrow> encodable t"
  by (induction t arbitrary: i bs) (auto simp: encodable_def split: sum.splits if_splits)

lemma utf_8_encode_ok: "encodable t \<Longrightarrow> utf_8_encode t = Inr (utf8 t)"
  by (simp add: utf_8_encode_def encode_from_ok)

lemma utf_8_encode_iff: "(\<exists>bs. utf_8_encode t = Inr bs) \<longleftrightarrow> encodable t"
  using encode_from_ok[of t 0] encode_from_Inr[of 0 t] by (auto simp: utf_8_encode_def)

lemma SAVE_PATH_eq: "SAVE_PATH = ''SwapDatas/InputDatas.csv''"
  by (simp add: SAVE_PATH_def SAVE_FOLDER_def os_path_join_def)

lemma parent_SAVE_PATH: "parent_dir SAVE_PATH = SAVE_FOLDER"
  by (simp add: SAVE_PATH_eq SAVE_FOLDER_def parent_dir_def)

lemma item_ok_write:
  assumes "item_ok rp item" "first f = False"
  shows "\<exists>row. item_row item = Inr row \<and>
     writer_writerow rp row f = Inr \<lparr>buf = buf f @ utf8 (item_text rp item), first = False\<rparr>"
proof -
  from assms(1) obtain row bs where r: "item_row item = Inr row" "utf_8_encode (csv_record rp row) = Inr bs"
    by (auto simp: item_ok_def item_failure_def split: sum.splits)
  then have "encodable (csv_record rp row)" using utf_8_encode_iff by blast
  then have "bs = utf8 (csv_record rp row)" using r(2) by (simp add: utf_8_encode_ok)
  then show ?thesis using r assms(2) by (simp add: writer_writerow_def f_write_def item_text_def)
qed

lemma item_bad_write:
  assumes "\<not> item_ok rp item"
  shows "(\<exists>e. item_row item = Inl e \<and> item_failure rp item = Some e) \<or>
         (\<exists>row e. item_row item = Inr row \<and> writer_writerow rp row f = Inl e \<and> item_failure rp item = Some e)"
  using assms by (auto simp: item_ok_def item_failure_def writer_writerow_def f_write_def split: sum.splits)

lemma write_items_char:
  "first f = False \<Longrightarrow>
   write_items rp items f =
     (first_failure rp items,
      \<lparr>buf = buf f @ utf8 (concat (map (item_text rp) (takeWhile (item_ok rp) items))), first = False\<rparr>)"
proof (induction items arbitrary: f)
  case Nil
  then show ?case by (simp add: first_failure_def)
next
  case (Cons item rest)
  show ?case
  proof (cases "item_ok rp item")
    case True
    from item_ok_write[OF True Cons.prems] obtain row where
      r: "item_row item = Inr row"
         "writer_writerow rp row f = Inr \<lparr>buf = buf f @ utf8 (item_text rp item), first = False\<rparr>"
      by blast
    show ?thesis using True r Cons.IH[of "\<lparr>buf = buf f @ utf8 (item_text rp item), first = False\<rparr>"]
      by (simp add: utf8_append first_failure_def)
  next
    case False
    from item_bad_write[OF False, of f] show ?thesis using False Cons.prems
      by (auto simp: first_failure_def)
  qed
qed

lemma header_record: "csv_record rp header_row = header_line"
  by (simp add: csv_record_def csv_line_def header_row_def header_line_def field_text_def
      join_append_def needs_quote_def special_def ustr_def)

lemma header_encodable: "encodable header_line"
  by (simp add: header_line_def encodable_def ustr_def is_surrogate_def)

lemma write_header:
  "writer_writerow rp header_row new_file = Inr \<lparr>buf = BOM_UTF8 @ utf8 header_line, first = False\<rparr>"
  by (simp add: writer_writerow_def f_write_def header_record utf_8_encode_ok[OF header_encodable] new_file_def)

lemma with_body_items:
  assumes "py_iter data = Inr items"
  shows "with_body rp data new_file =
     (first_failure rp items, \<lparr>buf = file_bytes rp (takeWhile (item_ok rp) items), first = False\<rparr>)"
  using assms
  by (simp add: with_body_def write_header write_items_char file_bytes_def table_text_def utf8_append)

lemma with_body_not_iterable:
  assumes "py_iter data = Inl e"
  shows "with_body rp data new_file = (Some e, \<lparr>buf = file_bytes rp [], first = False\<rparr>)"
  using assms
  by (simp add: with_body_def write_header file_bytes_def table_text_def)

lemma first_failure_None: "first_failure rp items = None \<longleftrightarrow> list_all (item_ok rp) items"
  by (induction items) (auto simp: first_failure_def item_ok_def)

lemma takeWhile_all: "\<forall>x\<in>set xs. P x \<Longrightarrow> takeWhile P xs = xs"
  by (induction xs) auto

text \<open>The handler, case by case.\<close>

lemma save_config_not_json: "save_config rp (Inl e) w = on_error e w"
  by (simp add: save_config_def)

lemma save_config_open_fails:
  "open_w SAVE_PATH w = Inl e \<Longrightarrow> save_config rp (Inr data) w = on_error e w"
  by (simp add: save_config_def)

lemma save_config_not_iterable:
  assumes "open_w SAVE_PATH w = Inr w1" "py_iter data = Inl e"
  shows "save_config rp (Inr data) w =
           on_error e (f_close SAVE_PATH \<lparr>buf = file_bytes rp [], first = False\<rparr> w1)"
  using assms by (simp add: save_config_def with_body_not_iterable)

lemma save_config_items:
  assumes "open_w SAVE_PATH w = Inr w1" "py_iter data = Inr items"
  shows "save_config rp (Inr data) w =
           (case first_failure rp items of
              None \<Rightarrow> on_success (f_close SAVE_PATH \<lparr>buf = file_bytes rp items, first = False\<rparr> w1)
            | Some e \<Rightarrow>
                on_error e (f_close SAVE_PATH
                  \<lparr>buf = file_bytes rp (takeWhile (item_ok rp) items), first = False\<rparr> w1))"
proof (cases "first_failure rp items")
  case None
  then have "\<forall>x\<in>set items. item_ok rp x"
    by (simp add: first_failure_None list_all_iff)
  then have tw: "takeWhile (item_ok rp) items = items"
    by (rule takeWhile_all)
  show ?thesis using None assms by (simp add: save_config_def with_body_items tw)
next
  case (Some e)
  with assms show ?thesis by (simp add: save_config_def with_body_items)
qed

lemma response_eq: "fst (save_config rp req w) =
   (case raised rp req w of None \<Rightarrow> ok_response | Some e \<Rightarrow> error_response e)"
proof (cases req)
  case (Inl e)
  then show ?thesis by (simp add: save_config_not_json raised_def on_error_def error_response_def)
next
  case (Inr data)
  show ?thesis
  proof (cases "open_w SAVE_PATH w")
    case (Inl e)
    then show ?thesis using Inr
      by (simp add: save_config_open_fails raised_def on_error_def error_response_def)
  next
    case w1: (Inr w1)
    show ?thesis
    proof (cases "py_iter data")
      case (Inl e)
      then show ?thesis using Inr w1
        by (simp add: save_config_not_iterable raised_def on_error_def error_response_def)
    next
      case items: (Inr items)
      show ?thesis using Inr w1 items
        by (simp add: save_config_items raised_def on_error_def on_success_def error_response_def
            ok_response_def SAVE_PATH_eq ustr_def split: option.splits)
    qed
  qed
qed

text \<open>The effect of the handler on the files, and the concrete world.\<close>

lemma utf8_header_line: "utf8 header_line = ascii ''Panel,Parameter,Value'' @ [13, 10]"
  by (simp add: header_line_def utf8_def utf8_char_def ustr_def ascii_def)

lemma file_bytes_Nil: "file_bytes rp [] = BOM_UTF8 @ ascii ''Panel,Parameter,Value'' @ [13, 10]"
  by (simp add: file_bytes_def table_text_def utf8_header_line)

lemma files_on_success [simp]: "files (snd (on_success w)) = files w"
  by (simp add: on_success_def print_def)

lemma files_on_error [simp]: "files (snd (on_error e w)) = files w"
  by (simp add: on_error_def print_def)

lemma fst_on_success: "fst (on_success w) = ok_response"
  by (simp add: on_success_def ok_response_def SAVE_PATH_eq ustr_def)

lemma fst_on_error: "fst (on_error e w) = error_response e"
  by (simp add: on_error_def error_response_def)

lemma files_f_close [simp]: "files (f_close p f w) = (files w)(p \<mapsto> buf f)"
  by (simp add: f_close_def)

lemma open_w_files: "open_w p w = Inr w1 \<Longrightarrow> files w1 = (files w)(p \<mapsto> [])"
  by (auto simp: open_w_def split: if_splits option.splits)

lemma parent_literal: "parent_dir ''SwapDatas/InputDatas.csv'' = ''SwapDatas''"
  by (simp add: parent_dir_def)

lemma open_world0: "open_w SAVE_PATH world0 = Inr (world0\<lparr>files := (files world0)(SAVE_PATH \<mapsto> [])\<rparr>)"
  by (simp add: open_w_def parent_literal world0_def SAVE_PATH_eq)

lemma byte_lines_header:
  "byte_lines (BOM_UTF8 @ ascii ''Panel,Parameter,Value'' @ [13, 10]) = [BOM_UTF8 @ ascii ''Panel,Parameter,Value'']"
  by (simp add: byte_lines_def BOM_UTF8_def ascii_def)

section \<open>Saving the empty array\<close>

text \<open>
  Claim C8. Saving the empty JSON array succeeds, whenever the destination can be opened:
  the response is the success response, and the file holds the signature and the header
  row, which is its only line.
\<close>

theorem save_empty_array:
  assumes "open_w SAVE_PATH w = Inr w1"
  shows "fst (save_config rp (Inr (JArr [])) w) =
           \<lparr>status_code = 200, status = ''success'', message = ustr ''Saved to SwapDatas/InputDatas.csv''\<rparr>
       \<and> files (snd (save_config rp (Inr (JArr [])) w)) SAVE_PATH =
           Some (BOM_UTF8 @ ascii ''Panel,Parameter,Value'' @ [13, 10])
       \<and> byte_lines (BOM_UTF8 @ ascii ''Panel,Parameter,Value'' @ [13, 10]) =
           [BOM_UTF8 @ ascii ''Panel,Parameter,Value'']"
proof -
  have "save_config rp (Inr (JArr [])) w =
          on_success (f_close SAVE_PATH \<lparr>buf = file_bytes rp [], first = False\<rparr> w1)"
    using save_config_items[OF assms, of "JArr []" "[]" rp] by (simp add: first_failure_def)
  then show ?thesis
    by (simp add: fst_on_success file_bytes_Nil byte_lines_header ok_response_def)
qed

theorem save_empty_array_witness:
  "open_w SAVE_PATH world0 = Inr (world0\<lparr>files := (files world0)(SAVE_PATH \<mapsto> [])\<rparr>)
   \<and> status_code (fst (save_config no_repr (Inr (JArr [])) world0)) = 200
   \<and> files (snd (save_config no_repr (Inr (JArr [])) world0)) SAVE_PATH =
        Some (BOM_UTF8 @ ascii ''Panel,Parameter,Value'' @ [13, 10])"
  using save_empty_array[OF open_world0, of no_repr] open_world0 by simp

text \<open>Items built with \<open>obj\<close>, and the item of the example.\<close>

lemma item_row_obj: "item_row (obj p q v) = Inr [p, q, v]"
  by (simp add: obj_def item_row_def ustr_def)

lemma item_row_has_keys: "(\<exists>row. item_row item = Inr row) \<longleftrightarrow> has_keys item"
  by (cases item) (auto simp: item_row_def split: option.splits)

lemma item_ok_iff: "item_ok rp item \<longleftrightarrow> has_keys item \<and> encodable (item_text rp item)"
proof (cases "item_row item")
  case (Inl e)
  then show ?thesis using item_row_has_keys[of item]
    by (simp add: item_ok_def item_failure_def)
next
  case (Inr row)
  then have "has_keys item" using item_row_has_keys[of item] by simp
  then show ?thesis using Inr utf_8_encode_iff[of "csv_record rp row"]
    by (auto simp: item_ok_def item_failure_def item_text_def split: sum.splits)
qed

lemma example_item_text:
  "item_text rp (obj (JStr (ustr ''Audio'')) (JStr (ustr ''Volume'')) (JInt 80)) =
     ustr ''Audio,Volume,80'' @ [13, 10]"
  by (simp add: item_text_def item_row_obj csv_record_def csv_line_def field_text_def
      join_append_def needs_quote_def special_def ustr_def py_str_int_def dec_digits.simps)

lemma example_item_ok: "item_ok rp (obj (JStr (ustr ''Audio'')) (JStr (ustr ''Volume'')) (JInt 80))"
  unfolding item_ok_iff example_item_text
  by (simp add: obj_def ustr_def encodable_def is_surrogate_def)

lemma example_file_bytes:
  "file_bytes rp [obj (JStr (ustr ''Audio'')) (JStr (ustr ''Volume'')) (JInt 80)] =
     BOM_UTF8 @ ascii ''Panel,Parameter,Value'' @ [13, 10] @ ascii ''Audio,Volume,80'' @ [13, 10]"
  by (simp add: file_bytes_def table_text_def example_item_text utf8_append utf8_header_line)
     (simp add: utf8_def utf8_char_def ustr_def ascii_def)

lemma example_lines:
  "byte_lines (BOM_UTF8 @ ascii ''Panel,Parameter,Value'' @ [13, 10] @ ascii ''Audio,Volume,80'' @ [13, 10]) =
     [BOM_UTF8 @ ascii ''Panel,Parameter,Value'', ascii ''Audio,Volume,80'']"
  by (simp add: byte_lines_def BOM_UTF8_def ascii_def)

lemma file_after_opened:
  assumes "open_w SAVE_PATH w = Inr w1"
  shows "\<exists>t. files (snd (save_config rp (Inr data) w)) SAVE_PATH = Some (BOM_UTF8 @ utf8 (header_line @ t))"
proof (cases "py_iter data")
  case (Inl e)
  then show ?thesis using save_config_not_iterable[OF assms Inl, of rp]
    by (auto simp: file_bytes_def table_text_def intro: exI[of _ "[]"])
next
  case (Inr items)
  show ?thesis using save_config_items[OF assms Inr, of rp]
    by (auto simp: file_bytes_def table_text_def split: option.splits)
qed

lemma other_files_kept: "p \<noteq> SAVE_PATH \<Longrightarrow> files (snd (save_config rp req w)) p = files w p"
proof (cases req)
  case (Inl e)
  then show ?thesis by (simp add: save_config_not_json)
next
  case (Inr data)
  assume p: "p \<noteq> SAVE_PATH"
  show ?thesis
  proof (cases "open_w SAVE_PATH w")
    case (Inl e)
    then show ?thesis using Inr by (simp add: save_config_open_fails)
  next
    case w1: (Inr w1)
    show ?thesis
    proof (cases "py_iter data")
      case (Inl e)
      then show ?thesis using Inr w1 p open_w_files[OF w1]
        by (simp add: save_config_not_iterable)
    next
      case items: (Inr items)
      show ?thesis using Inr w1 p open_w_files[OF w1]
        by (simp add: save_config_items[OF w1 items] split: option.splits)
    qed
  qed
qed

section \<open>Path, encoding and layout of the persisted file\<close>

text \<open>
  Claim C5. The handler persists to \<open>SwapDatas/InputDatas.csv\<close> and touches no other
  file; what it writes there is the UTF-8 signature followed by the UTF-8 form of a text
  that starts with the header line \<open>Panel,Parameter,Value\<close>; and for the body of the
  example the file is the signature, the header line and the line \<open>Audio,Volume,80\<close>,
  the response being the success response with the message
  \<open>Saved to SwapDatas/InputDatas.csv\<close>. All of this whenever the destination can be
  opened.
\<close>

theorem save_path_and_layout:
  assumes "open_w SAVE_PATH w = Inr w1"
  shows "SAVE_PATH = ''SwapDatas/InputDatas.csv''
       \<and> fst (save_config rp (Inr example_body) w) =
           \<lparr>status_code = 200, status = ''success'', message = ustr ''Saved to SwapDatas/InputDatas.csv''\<rparr>
       \<and> files (snd (save_config rp (Inr example_body) w)) ''SwapDatas/InputDatas.csv'' =
           Some (BOM_UTF8 @ ascii ''Panel,Parameter,Value'' @ [13, 10] @ ascii ''Audio,Volume,80'' @ [13, 10])
       \<and> byte_lines (BOM_UTF8 @ ascii ''Panel,Parameter,Value'' @ [13, 10] @ ascii ''Audio,Volume,80'' @ [13, 10]) =
           [BOM_UTF8 @ ascii ''Panel,Parameter,Value'', ascii ''Audio,Volume,80'']
       \<and> (\<forall>data. \<exists>t. files (snd (save_config rp (Inr data) w)) SAVE_PATH =
              Some (BOM_UTF8 @ utf8 (ustr ''Panel,Parameter,Value'' @ [13, 10] @ t)))
       \<and> (\<forall>req p. p \<noteq> SAVE_PATH \<longrightarrow> files (snd (save_config rp req w)) p = files w p)"
proof -
  let ?item = "obj (JStr (ustr ''Audio'')) (JStr (ustr ''Volume'')) (JInt 80)"
  have ff: "first_failure rp [?item] = None"
    by (simp add: first_failure_None example_item_ok)
  have sc: "save_config rp (Inr example_body) w =
          on_success (f_close SAVE_PATH \<lparr>buf = file_bytes rp [?item], first = False\<rparr> w1)"
    using save_config_items[OF assms, of "example_body" "[?item]" rp] ff
    by (simp add: example_body_def)
  have a: "fst (save_config rp (Inr example_body) w) =
           \<lparr>status_code = 200, status = ''success'', message = ustr ''Saved to SwapDatas/InputDatas.csv''\<rparr>"
    by (simp add: sc fst_on_success ok_response_def)
  have b: "files (snd (save_config rp (Inr example_body) w)) ''SwapDatas/InputDatas.csv'' =
           Some (BOM_UTF8 @ ascii ''Panel,Parameter,Value'' @ [13, 10] @ ascii ''Audio,Volume,80'' @ [13, 10])"
    using example_file_bytes[of rp] by (simp add: sc SAVE_PATH_eq)
  have c: "\<forall>data. \<exists>t. files (snd (save_config rp (Inr data) w)) SAVE_PATH =
              Some (BOM_UTF8 @ utf8 (ustr ''Panel,Parameter,Value'' @ [13, 10] @ t))"
    using file_after_opened[OF assms, of rp] by (simp add: header_line_def)
  show ?thesis using a b c SAVE_PATH_eq example_lines other_files_kept by blast
qed

theorem save_path_and_layout_witness:
  "open_w SAVE_PATH world0 = Inr (world0\<lparr>files := (files world0)(SAVE_PATH \<mapsto> [])\<rparr>)
   \<and> message (fst (save_config no_repr (Inr example_body) world0)) = ustr ''Saved to SwapDatas/InputDatas.csv''
   \<and> files (snd (save_config no_repr (Inr example_body) world0)) ''SwapDatas/InputDatas.csv'' =
        Some (BOM_UTF8 @ ascii ''Panel,Parameter,Value'' @ [13, 10] @ ascii ''Audio,Volume,80'' @ [13, 10])
   \<and> files (snd (save_config no_repr (Inr example_body) world0)) ''index.html'' = None"
proof -
  note t = save_path_and_layout[OF open_world0, of no_repr]
  have n: "''index.html'' \<noteq> SAVE_PATH" by (simp add: SAVE_PATH_eq)
  from t n have "files (snd (save_config no_repr (Inr example_body) world0)) ''index.html'' =
      files world0 ''index.html''" by blast
  then have d: "files (snd (save_config no_repr (Inr example_body) world0)) ''index.html'' = None"
    by (simp add: world0_def)
  from t have m: "message (fst (save_config no_repr (Inr example_body) world0)) =
      ustr ''Saved to SwapDatas/InputDatas.csv''" by simp
  from t have f: "files (snd (save_config no_repr (Inr example_body) world0)) ''SwapDatas/InputDatas.csv'' =
        Some (BOM_UTF8 @ ascii ''Panel,Parameter,Value'' @ [13, 10] @ ascii ''Audio,Volume,80'' @ [13, 10])"
    by blast
  show ?thesis using open_world0 m f d by blast
qed

text \<open>Opening the destination.\<close>

lemma can_open_iff: "(\<exists>w1. open_w SAVE_PATH w = Inr w1) \<longleftrightarrow> can_open w"
  by (auto simp: open_w_def can_open_def parent_SAVE_PATH SAVE_FOLDER_def split: option.splits)

lemma cannot_open_iff: "(\<exists>e. open_w SAVE_PATH w = Inl e) \<longleftrightarrow> \<not> can_open w"
  using can_open_iff[of w] by (cases "open_w SAVE_PATH w") auto

lemma status_200_iff: "status_code (fst (save_config rp req w)) = 200 \<longleftrightarrow> raised rp req w = None"
  by (simp add: response_eq ok_response_def error_response_def split: option.splits)

lemma status_500_iff: "status_code (fst (save_config rp req w)) = 500 \<longleftrightarrow> raised rp req w \<noteq> None"
  by (simp add: response_eq ok_response_def error_response_def split: option.splits)

lemma raised_None_iff:
  "raised rp req w = None \<longleftrightarrow>
     (\<exists>data items. req = Inr data \<and> can_open w \<and> py_iter data = Inr items \<and> list_all (item_ok rp) items)"
proof (cases req)
  case (Inl e)
  then show ?thesis by (simp add: raised_def)
next
  case (Inr data)
  show ?thesis
  proof (cases "open_w SAVE_PATH w")
    case (Inl e)
    then have "\<not> can_open w" using cannot_open_iff by blast
    then show ?thesis using Inr Inl by (simp add: raised_def)
  next
    case w1: (Inr w1)
    then have "can_open w" using can_open_iff by blast
    then show ?thesis using Inr w1
      by (cases "py_iter data") (simp_all add: raised_def first_failure_None)
  qed
qed

text \<open>Quoting adds no surrogate: a record can be encoded when its fields can.\<close>

lemma encodable_Nil [simp]: "encodable []"
  by (simp add: encodable_def)

lemma encodable_Cons: "encodable (c # s) \<longleftrightarrow> \<not> is_surrogate c \<and> encodable s"
  by (simp add: encodable_def)

lemma encodable_append [simp]: "encodable (a @ b) \<longleftrightarrow> encodable a \<and> encodable b"
  by (simp add: encodable_def)

lemma not_surrogate_ascii [simp]:
  "\<not> is_surrogate 34" "\<not> is_surrogate 44" "\<not> is_surrogate 13" "\<not> is_surrogate 10"
  by (simp_all add: is_surrogate_def)

lemma encodable_double_quotes [simp]: "encodable (double_quotes s) \<longleftrightarrow> encodable s"
  by (induction s) (simp_all add: encodable_Cons)

lemma encodable_join_append [simp]: "encodable (join_append s) \<longleftrightarrow> encodable s"
  by (simp add: join_append_def encodable_Cons)

lemma encodable_join_fields: "encodable (join_fields ss) \<longleftrightarrow> list_all encodable ss"
  by (induction ss rule: join_fields.induct) (simp_all add: encodable_Cons)

lemma encodable_csv_line: "encodable (csv_line ss) \<longleftrightarrow> list_all encodable ss"
proof (cases "ss \<noteq> [] \<and> join_fields ss = []")
  case True
  then have "encodable (join_fields ss)" by simp
  then have "list_all encodable ss" by (simp add: encodable_join_fields)
  then show ?thesis using True by (simp add: csv_line_def encodable_Cons)
next
  case False
  then show ?thesis by (auto simp: csv_line_def Let_def encodable_Cons encodable_join_fields)
qed

lemma item_text_fields: "has_keys item \<Longrightarrow> item_text rp item = csv_line (item_fields rp item)"
  using item_row_has_keys[of item]
  by (auto simp: item_text_def item_fields_def csv_record_def)

lemma length_item_fields: "has_keys item \<Longrightarrow> length (item_fields rp item) = 3"
  using item_row_has_keys[of item]
  by (auto simp: item_fields_def item_row_def split: sum.splits)

lemma item_ok_fields: "item_ok rp item \<longleftrightarrow> has_keys item \<and> list_all encodable (item_fields rp item)"
  using item_text_fields[of item rp] by (auto simp: item_ok_iff encodable_csv_line)

lemma lacks_key_not_has: "lacks_key i \<Longrightarrow> \<not> has_keys i"
  by (cases i) auto

text \<open>The file after a request.\<close>

lemma file_unchanged_early:
  assumes "req = Inl e \<or> \<not> can_open w"
  shows "files (snd (save_config rp req w)) = files w"
proof (cases req)
  case (Inl e')
  then show ?thesis by (simp add: save_config_not_json)
next
  case (Inr data)
  with assms have "\<not> can_open w" by simp
  then obtain e' where "open_w SAVE_PATH w = Inl e'" using cannot_open_iff by blast
  then show ?thesis using Inr by (simp add: save_config_open_fails)
qed

lemma file_after_items:
  assumes "open_w SAVE_PATH w = Inr w1" "py_iter data = Inr items"
  shows "files (snd (save_config rp (Inr data) w)) SAVE_PATH =
           Some (file_bytes rp (takeWhile (item_ok rp) items))"
proof (cases "first_failure rp items")
  case None
  then have "\<forall>x\<in>set items. item_ok rp x" by (simp add: first_failure_None list_all_iff)
  then have tw: "takeWhile (item_ok rp) items = items" by (rule takeWhile_all)
  show ?thesis using None by (simp add: save_config_items[OF assms] tw)
next
  case (Some e)
  then show ?thesis by (simp add: save_config_items[OF assms])
qed

lemma file_after_not_iterable:
  assumes "open_w SAVE_PATH w = Inr w1" "py_iter data = Inl e"
  shows "files (snd (save_config rp (Inr data) w)) SAVE_PATH = Some (file_bytes rp [])"
  by (simp add: save_config_not_iterable[OF assms])

lemma success_file:
  assumes "status_code (fst (save_config rp req w)) = 200"
  shows "\<exists>data items. req = Inr data \<and> can_open w \<and> py_iter data = Inr items
           \<and> list_all (item_ok rp) items
           \<and> files (snd (save_config rp req w)) SAVE_PATH = Some (file_bytes rp items)"
proof -
  from assms obtain data items where d: "req = Inr data" "can_open w" "py_iter data = Inr items"
      "list_all (item_ok rp) items"
    using status_200_iff raised_None_iff by blast
  from d(2) obtain w1 where w1: "open_w SAVE_PATH w = Inr w1" using can_open_iff by blast
  from d(4) have "\<forall>x\<in>set items. item_ok rp x" by (simp add: list_all_iff)
  then have tw: "takeWhile (item_ok rp) items = items" by (rule takeWhile_all)
  have "files (snd (save_config rp (Inr data) w)) SAVE_PATH = Some (file_bytes rp items)"
    using file_after_items[OF w1 d(3), of rp] by (simp add: tw)
  then show ?thesis using d by blast
qed





lemma open_world_prior:
  "open_w SAVE_PATH world_prior = Inr (world_prior\<lparr>files := (files world_prior)(SAVE_PATH \<mapsto> [])\<rparr>)"
  by (simp add: open_w_def parent_literal world_prior_def SAVE_PATH_eq)

section \<open>Failure after the file is opened\<close>




text \<open>What a request leaves unchanged.\<close>

lemma dirs_print [simp]: "dirs (print t w) = dirs w"
  by (simp add: print_def)

lemma denied_print [simp]: "denied (print t w) = denied w"
  by (simp add: print_def)

lemma dirs_f_close [simp]: "dirs (f_close p f w) = dirs w"
  by (simp add: f_close_def)

lemma denied_f_close [simp]: "denied (f_close p f w) = denied w"
  by (simp add: f_close_def)

lemma open_w_dirs: "open_w p w = Inr w1 \<Longrightarrow> dirs w1 = dirs w \<and> denied w1 = denied w"
  by (auto simp: open_w_def split: if_splits option.splits)

lemma save_config_dirs:
  "dirs (snd (save_config rp req w)) = dirs w \<and> denied (snd (save_config rp req w)) = denied w"
proof (cases req)
  case (Inl e)
  then show ?thesis by (simp add: save_config_not_json on_error_def)
next
  case (Inr data)
  show ?thesis
  proof (cases "open_w SAVE_PATH w")
    case (Inl e)
    then show ?thesis using Inr by (simp add: save_config_open_fails on_error_def)
  next
    case w1: (Inr w1)
    show ?thesis
    proof (cases "py_iter data")
      case (Inl e)
      then show ?thesis using Inr open_w_dirs[OF w1]
        by (simp add: save_config_not_iterable[OF w1 Inl] on_error_def)
    next
      case items: (Inr items)
      show ?thesis using Inr open_w_dirs[OF w1]
        by (simp add: save_config_items[OF w1 items] on_error_def on_success_def split: option.splits)
    qed
  qed
qed

lemma SAVE_FOLDER_not_PATH: "SAVE_FOLDER \<noteq> SAVE_PATH"
  by (simp add: SAVE_PATH_eq SAVE_FOLDER_def)

lemma can_open_after: "can_open (snd (save_config rp req w)) \<longleftrightarrow> can_open w"
proof -
  have "files (snd (save_config rp req w)) SAVE_FOLDER = files w SAVE_FOLDER"
    using other_files_kept[OF SAVE_FOLDER_not_PATH] by simp
  then have "SAVE_FOLDER \<in> dom (files (snd (save_config rp req w))) \<longleftrightarrow> SAVE_FOLDER \<in> dom (files w)"
    by (simp add: dom_def)
  then show ?thesis using save_config_dirs[of rp req w] by (simp add: can_open_def)
qed

lemma can_open_world0: "can_open world0"
  using can_open_iff open_world0 by blast

lemma empty_ok: "raised rp (Inr (JArr [])) w = None \<longleftrightarrow> can_open w"
  by (simp add: raised_None_iff)

lemma example_raised: "raised rp (Inr example_body) w = None \<longleftrightarrow> can_open w"
  by (simp add: raised_None_iff example_body_def example_item_ok)

section \<open>A second save replaces the first\<close>

text \<open>
  Claim C4. When two saves succeed one after the other, the file after the second is the
  table of the second body alone, which is also what a single successful save of that
  body leaves, from any world: nothing of the first submission remains.
\<close>

theorem second_save_overwrites:
  assumes "status_code (fst (save_config rp req1 w)) = 200"
      and "status_code (fst (save_config rp req2 (snd (save_config rp req1 w)))) = 200"
      and "status_code (fst (save_config rp req2 w')) = 200"
  shows "files (snd (save_config rp req2 (snd (save_config rp req1 w)))) SAVE_PATH =
           files (snd (save_config rp req2 w')) SAVE_PATH
       \<and> (\<exists>data items. req2 = Inr data \<and> py_iter data = Inr items
            \<and> files (snd (save_config rp req2 (snd (save_config rp req1 w)))) SAVE_PATH =
                Some (file_bytes rp items))"
proof -
  from success_file[OF assms(2)] obtain data items where
    a: "req2 = Inr data" "py_iter data = Inr items"
       "files (snd (save_config rp req2 (snd (save_config rp req1 w)))) SAVE_PATH =
          Some (file_bytes rp items)"
    by blast
  from success_file[OF assms(3)] obtain data' items' where
    b: "req2 = Inr data'" "py_iter data' = Inr items'"
       "files (snd (save_config rp req2 w')) SAVE_PATH = Some (file_bytes rp items')"
    by blast
  from a(1,2) b(1,2) have "items' = items" by simp
  then show ?thesis using a b by auto
qed

theorem second_save_overwrites_witness:
  "status_code (fst (save_config no_repr (Inr example_body) world0)) = 200
   \<and> status_code (fst (save_config no_repr (Inr (JArr []))
        (snd (save_config no_repr (Inr example_body) world0)))) = 200
   \<and> status_code (fst (save_config no_repr (Inr (JArr [])) world0)) = 200
   \<and> files (snd (save_config no_repr (Inr (JArr []))
        (snd (save_config no_repr (Inr example_body) world0)))) SAVE_PATH =
       files (snd (save_config no_repr (Inr (JArr [])) world0)) SAVE_PATH"
proof -
  have s1: "status_code (fst (save_config no_repr (Inr example_body) world0)) = 200"
    by (simp add: status_200_iff example_raised can_open_world0)
  have s2: "status_code (fst (save_config no_repr (Inr (JArr []))
        (snd (save_config no_repr (Inr example_body) world0)))) = 200"
    by (simp add: status_200_iff empty_ok can_open_after can_open_world0)
  have s3: "status_code (fst (save_config no_repr (Inr (JArr [])) world0)) = 200"
    by (simp add: status_200_iff empty_ok can_open_world0)
  show ?thesis using second_save_overwrites[OF s1 s2 s3] s1 s2 s3 by blast
qed

lemma file_after_open:
  assumes "can_open w"
  shows "files (snd (save_config rp (Inr data) w)) SAVE_PATH =
     Some (case py_iter data of Inl e \<Rightarrow> file_bytes rp []
           | Inr items \<Rightarrow> file_bytes rp (takeWhile (item_ok rp) items))"
proof -
  from assms obtain w1 where w1: "open_w SAVE_PATH w = Inr w1" using can_open_iff by blast
  show ?thesis
  proof (cases "py_iter data")
    case (Inl e)
    then show ?thesis using file_after_not_iterable[OF w1 Inl, of rp] by simp
  next
    case (Inr items)
    then show ?thesis using file_after_items[OF w1 Inr, of rp] by simp
  qed
qed

text \<open>The reader, state by state.\<close>

lemma reader_quoted_char:
  "reader IN_QUOTED_FIELD fld flds (c # cs) =
     (if c = 34 then reader QUOTE_IN_QUOTED_FIELD fld flds cs
      else reader IN_QUOTED_FIELD (fld @ [c]) flds cs)"
  by simp

lemma reader_comma:
  "st \<noteq> IN_QUOTED_FIELD \<Longrightarrow> reader st fld flds (44 # cs) = reader START_FIELD [] (flds @ [fld]) cs"
  by simp

lemma reader_crlf:
  "st \<noteq> IN_QUOTED_FIELD \<Longrightarrow>
   reader st fld flds (13 # 10 # cs) =
     (if st = START_RECORD then [] else flds @ [fld]) # reader START_RECORD [] [] cs"
  by simp

lemma reader_open_quote:
  "st = START_RECORD \<or> st = START_FIELD \<Longrightarrow>
   reader st fld flds (34 # cs) = reader IN_QUOTED_FIELD fld flds cs"
  by auto

lemma reader_doubled_quote:
  "reader QUOTE_IN_QUOTED_FIELD fld flds (34 # cs) = reader IN_QUOTED_FIELD (fld @ [34]) flds cs"
  by simp

lemma reader_plain_char:
  "\<not> special c \<Longrightarrow> st \<noteq> IN_QUOTED_FIELD \<Longrightarrow>
   reader st fld flds (c # cs) = reader IN_FIELD (fld @ [c]) flds cs"
  by (simp add: special_def)

lemma reader_end: "reader START_RECORD [] [] [] = []"
  by simp

declare reader.simps [simp del]

text \<open>Reading a field back.\<close>

lemma read_quoted:
  "reader IN_QUOTED_FIELD acc flds (double_quotes s @ 34 # rest) =
     reader QUOTE_IN_QUOTED_FIELD (acc @ s) flds rest"
proof (induction s arbitrary: acc)
  case Nil
  then show ?case by (simp add: reader_quoted_char)
next
  case (Cons c s)
  show ?case
  proof (cases "c = 34")
    case True
    then show ?thesis using Cons.IH[of "acc @ [34]"]
      by (simp add: reader_quoted_char reader_doubled_quote)
  next
    case False
    then show ?thesis using Cons.IH[of "acc @ [c]"]
      by (simp add: reader_quoted_char)
  qed
qed

lemma read_plain:
  "\<not> needs_quote s \<Longrightarrow>
   reader IN_FIELD acc flds (s @ rest) = reader IN_FIELD (acc @ s) flds rest"
proof (induction s arbitrary: acc)
  case Nil
  then show ?case by simp
next
  case (Cons c s)
  then have c: "\<not> special c" and s: "\<not> needs_quote s" by (simp_all add: needs_quote_def)
  show ?case using Cons.IH[OF s, of "acc @ [c]"] c by (simp add: reader_plain_char)
qed

lemma read_plain_start:
  assumes "\<not> needs_quote s" "s \<noteq> []" "st = START_RECORD \<or> st = START_FIELD"
  shows "reader st [] flds (s @ rest) = reader IN_FIELD s flds rest"
proof -
  from assms(2) obtain c s' where s: "s = c # s'" by (cases s) auto
  with assms(1) have c: "\<not> special c" and s': "\<not> needs_quote s'" by (simp_all add: needs_quote_def)
  from assms(3) have st: "st \<noteq> IN_QUOTED_FIELD" by auto
  show ?thesis using read_plain[OF s', of "[c]" flds rest] c st s
    by (simp add: reader_plain_char)
qed

lemma read_field_comma:
  assumes "st = START_RECORD \<or> st = START_FIELD"
  shows "reader st [] flds (join_append s @ 44 # rest) = reader START_FIELD [] (flds @ [s]) rest"
proof (cases "needs_quote s")
  case True
  then show ?thesis using assms read_quoted[of "[]" flds s "44 # rest"]
    by (simp add: join_append_def reader_open_quote reader_comma)
next
  case False
  from assms have st: "st \<noteq> IN_QUOTED_FIELD" by auto
  show ?thesis
  proof (cases "s = []")
    case True
    then show ?thesis using False st by (simp add: join_append_def reader_comma)
  next
    case nonempty: False
    show ?thesis using read_plain_start[OF False nonempty assms, of flds "44 # rest"] False
      by (simp add: join_append_def reader_comma)
  qed
qed

lemma read_field_crlf:
  assumes "st = START_FIELD \<or> (st = START_RECORD \<and> s \<noteq> [])"
  shows "reader st [] flds (join_append s @ 13 # 10 # rest) =
           (flds @ [s]) # reader START_RECORD [] [] rest"
proof (cases "needs_quote s")
  case True
  from assms have "st = START_RECORD \<or> st = START_FIELD" by auto
  then show ?thesis using True read_quoted[of "[]" flds s "13 # 10 # rest"]
    by (simp add: join_append_def reader_open_quote reader_crlf)
next
  case False
  show ?thesis
  proof (cases "s = []")
    case True
    with assms have "st = START_FIELD" by auto
    then show ?thesis using False True by (simp add: join_append_def reader_crlf)
  next
    case nonempty: False
    from assms have "st = START_RECORD \<or> st = START_FIELD" by auto
    from read_plain_start[OF False nonempty this, of flds "13 # 10 # rest"] show ?thesis
      using False by (simp add: join_append_def reader_crlf)
  qed
qed

text \<open>Reading a record back, and a whole table.\<close>

lemma read_fields:
  "ss \<noteq> [] \<Longrightarrow>
   reader START_FIELD [] flds (join_fields ss @ 13 # 10 # rest) =
     (flds @ ss) # reader START_RECORD [] [] rest"
proof (induction ss arbitrary: flds rule: join_fields.induct)
  case 1
  then show ?case by simp
next
  case (2 s)
  then show ?case by (simp add: read_field_crlf)
next
  case (3 s v va)
  have "reader START_FIELD [] flds (join_fields (s # v # va) @ 13 # 10 # rest) =
        reader START_FIELD [] (flds @ [s]) (join_fields (v # va) @ 13 # 10 # rest)"
    using read_field_comma[of START_FIELD flds s "join_fields (v # va) @ 13 # 10 # rest"] by simp
  then show ?case using "3.IH"[of "flds @ [s]"] by simp
qed

lemma read_line: "reader START_RECORD [] [] (csv_line ss @ rest) = ss # reader START_RECORD [] [] rest"
proof (cases ss)
  case Nil
  then show ?thesis by (simp add: csv_line_def reader_crlf)
next
  case (Cons s ss')
  show ?thesis
  proof (cases ss')
    case Nil
    show ?thesis
    proof (cases "join_append s = []")
      case True
      then have "s = []" by (auto simp: join_append_def split: if_splits)
      then show ?thesis using Cons Nil True read_quoted[of "[]" "[]" "[]" "13 # 10 # rest"]
        by (simp add: csv_line_def reader_open_quote reader_crlf)
    next
      case False
      then have "s \<noteq> []" by (auto simp: join_append_def needs_quote_def)
      then show ?thesis using Cons Nil False read_field_crlf[of START_RECORD s "[]" rest]
        by (simp add: csv_line_def)
    qed
  next
    case (Cons s2 ss2)
    have "reader START_RECORD [] [] (join_fields (s # s2 # ss2) @ 13 # 10 # rest) =
          reader START_FIELD [] [s] (join_fields (s2 # ss2) @ 13 # 10 # rest)"
      using read_field_comma[of START_RECORD "[]" s "join_fields (s2 # ss2) @ 13 # 10 # rest"] by simp
    also have "\<dots> = (s # s2 # ss2) # reader START_RECORD [] [] rest"
      using read_fields[of "s2 # ss2" "[s]" rest] by simp
    finally show ?thesis using \<open>ss = s # ss'\<close> Cons by (simp add: csv_line_def)
  qed
qed

lemma read_table: "reader START_RECORD [] [] (concat (map csv_line rows)) = rows"
  by (induction rows) (simp_all add: reader_end read_line)

text \<open>Decoding what was encoded.\<close>

lemma unat_byte: "n < 256 \<Longrightarrow> unat (of_nat n :: byte) = n"
  by (simp add: unat_of_nat)

lemma split3: "(c::nat) div 4096 * 4096 + c div 64 mod 64 * 64 + c mod 64 = c"
proof -
  define d where "d = c div 64"
  have 1: "c div 4096 = d div 64" unfolding d_def by (simp add: div_mult2_eq[symmetric])
  have 2: "d div 64 * 64 + d mod 64 = d" by simp
  have 3: "d * 64 + c mod 64 = c" unfolding d_def by simp
  have "d div 64 * 4096 + d mod 64 * 64 + c mod 64 = (d div 64 * 64 + d mod 64) * 64 + c mod 64"
    by (simp only: add_mult_distrib mult.assoc semiring_norm)
  also have "\<dots> = c" by (simp only: 2 3)
  finally show ?thesis unfolding 1 d_def .
qed

lemma split4:
  "(c::nat) div 262144 * 262144 + c div 4096 mod 64 * 4096 + c div 64 mod 64 * 64 + c mod 64 = c"
proof -
  define d where "d = c div 4096"
  have 1: "c div 262144 = d div 64" unfolding d_def by (simp add: div_mult2_eq[symmetric])
  have 2: "d div 64 * 64 + d mod 64 = d" by simp
  have "d div 64 * 262144 + d mod 64 * 4096 = (d div 64 * 64 + d mod 64) * 4096"
    by (simp only: add_mult_distrib mult.assoc semiring_norm)
  also have "\<dots> = d * 4096" by (simp only: 2)
  finally have "c div 262144 * 262144 + c div 4096 mod 64 * 4096 = c div 4096 * 4096"
    unfolding 1 d_def .
  then show ?thesis by (simp only: split3)
qed

lemma decode1_1: "unat b0 < 128 \<Longrightarrow> decode1 (b0 # bs) = Some (unat b0, 0)"
  by (simp add: decode1_def)

lemma decode1_2:
  assumes "194 \<le> unat b0" "unat b0 < 224" "128 \<le> unat b1" "unat b1 < 192"
  shows "decode1 (b0 # b1 # bs) = Some ((unat b0 - 192) * 64 + (unat b1 - 128), 1)"
  using assms by (simp add: decode1_def cont_def pay_def)

lemma decode1_3:
  assumes "224 \<le> unat b0" "unat b0 < 240" "128 \<le> unat b1" "unat b1 < 192"
    "128 \<le> unat b2" "unat b2 < 192"
    "2048 \<le> (unat b0 - 224) * 4096 + (unat b1 - 128) * 64 + (unat b2 - 128)"
    "\<not> is_surrogate ((unat b0 - 224) * 4096 + (unat b1 - 128) * 64 + (unat b2 - 128))"
  shows "decode1 (b0 # b1 # b2 # bs) =
           Some ((unat b0 - 224) * 4096 + (unat b1 - 128) * 64 + (unat b2 - 128), 2)"
  using assms by (simp add: decode1_def cont_def pay_def)

lemma decode1_4:
  assumes "240 \<le> unat b0" "unat b0 < 245" "128 \<le> unat b1" "unat b1 < 192"
    "128 \<le> unat b2" "unat b2 < 192" "128 \<le> unat b3" "unat b3 < 192"
    "65536 \<le> (unat b0 - 240) * 262144 + (unat b1 - 128) * 4096 + (unat b2 - 128) * 64 + (unat b3 - 128)"
    "(unat b0 - 240) * 262144 + (unat b1 - 128) * 4096 + (unat b2 - 128) * 64 + (unat b3 - 128) < 1114112"
  shows "decode1 (b0 # b1 # b2 # b3 # bs) =
           Some ((unat b0 - 240) * 262144 + (unat b1 - 128) * 4096 + (unat b2 - 128) * 64 + (unat b3 - 128), 3)"
  using assms by (simp add: decode1_def cont_def pay_def)

lemma decode1_char:
  assumes "valid_cp c"
  shows "decode1 (utf8_char c @ bs) = Some (c, length (utf8_char c) - 1)"
proof -
  from assms have v: "c < 1114112" "\<not> is_surrogate c" by (simp_all add: valid_cp_def)
  consider "c < 128" | "128 \<le> c \<and> c < 2048" | "2048 \<le> c \<and> c < 65536" | "65536 \<le> c \<and> c < 1114112"
    using v(1) by linarith
  then show ?thesis
  proof cases
    case 1
    then have u: "utf8_char c = [of_nat c]" by (simp add: utf8_char_def)
    from 1 have "unat (of_nat c :: byte) = c" by (simp add: unat_byte)
    then show ?thesis using 1 decode1_1[of "of_nat c" bs] by (simp add: u)
  next
    case 2
    then have u: "utf8_char c = [of_nat (192 + c div 64), of_nat (128 + c mod 64)]"
      by (simp add: utf8_char_def)
    from 2 have a: "c div 64 < 32" "2 \<le> c div 64" by arith+
    have u0: "unat (of_nat (192 + c div 64) :: byte) = 192 + c div 64"
      using a by (intro unat_byte) simp
    have u1: "unat (of_nat (128 + c mod 64) :: byte) = 128 + c mod 64"
      by (intro unat_byte) simp
    have "decode1 (of_nat (192 + c div 64) # of_nat (128 + c mod 64) # bs) =
        Some ((192 + c div 64 - 192) * 64 + (128 + c mod 64 - 128), 1)"
      using decode1_2[of "of_nat (192 + c div 64)" "of_nat (128 + c mod 64)" bs] a
      unfolding u0 u1 by simp
    then show ?thesis by (simp add: u)
  next
    case 3
    then have u: "utf8_char c =
        [of_nat (224 + c div 4096), of_nat (128 + c div 64 mod 64), of_nat (128 + c mod 64)]"
      by (simp add: utf8_char_def)
    from 3 have a: "c div 4096 < 16" by arith
    have u0: "unat (of_nat (224 + c div 4096) :: byte) = 224 + c div 4096"
      using a by (intro unat_byte) simp
    have u1: "unat (of_nat (128 + c div 64 mod 64) :: byte) = 128 + c div 64 mod 64"
      by (intro unat_byte) simp
    have u2: "unat (of_nat (128 + c mod 64) :: byte) = 128 + c mod 64"
      by (intro unat_byte) simp
    have e: "(224 + c div 4096 - 224) * 4096 + (128 + c div 64 mod 64 - 128) * 64
          + (128 + c mod 64 - 128) = c"
      using split3[of c] by simp
    have "decode1 (of_nat (224 + c div 4096) # of_nat (128 + c div 64 mod 64)
            # of_nat (128 + c mod 64) # bs) = Some (c, 2)"
      using decode1_3[of "of_nat (224 + c div 4096)" "of_nat (128 + c div 64 mod 64)"
          "of_nat (128 + c mod 64)" bs] a 3 v(2)
      unfolding u0 u1 u2 e by simp
    then show ?thesis by (simp add: u)
  next
    case 4
    then have a: "c div 262144 < 5" by arith
    then have m: "c div 262144 mod 8 = c div 262144" by simp
    from 4 have u: "utf8_char c =
        [of_nat (240 + c div 262144), of_nat (128 + c div 4096 mod 64),
         of_nat (128 + c div 64 mod 64), of_nat (128 + c mod 64)]"
      by (simp add: utf8_char_def m)
    have u0: "unat (of_nat (240 + c div 262144) :: byte) = 240 + c div 262144"
      using a by (intro unat_byte) simp
    have u1: "unat (of_nat (128 + c div 4096 mod 64) :: byte) = 128 + c div 4096 mod 64"
      by (intro unat_byte) simp
    have u2: "unat (of_nat (128 + c div 64 mod 64) :: byte) = 128 + c div 64 mod 64"
      by (intro unat_byte) simp
    have u3: "unat (of_nat (128 + c mod 64) :: byte) = 128 + c mod 64"
      by (intro unat_byte) simp
    have e: "(240 + c div 262144 - 240) * 262144 + (128 + c div 4096 mod 64 - 128) * 4096
          + (128 + c div 64 mod 64 - 128) * 64 + (128 + c mod 64 - 128) = c"
      using split4[of c] by simp
    have "decode1 (of_nat (240 + c div 262144) # of_nat (128 + c div 4096 mod 64)
            # of_nat (128 + c div 64 mod 64) # of_nat (128 + c mod 64) # bs) = Some (c, 3)"
      using decode1_4[of "of_nat (240 + c div 262144)" "of_nat (128 + c div 4096 mod 64)"
          "of_nat (128 + c div 64 mod 64)" "of_nat (128 + c mod 64)" bs] a 4
      unfolding u0 u1 u2 u3 e by simp
    then show ?thesis by (simp add: u)
  qed
qed

lemma utf8_char_nonempty: "utf8_char c \<noteq> []"
  by (simp add: utf8_char_def)

lemma utf_8_decode_Nil: "utf_8_decode [] = Some []"
  by (simp add: utf_8_decode.simps)

lemma utf_8_decode_char:
  assumes "valid_cp c"
  shows "utf_8_decode (utf8_char c @ bs) = map_option ((#) c) (utf_8_decode bs)"
proof -
  have n: "utf8_char c @ bs \<noteq> []" using utf8_char_nonempty by simp
  have l: "Suc (length (utf8_char c) - 1) = length (utf8_char c)"
    using utf8_char_nonempty[of c] by (cases "utf8_char c") auto
  have d: "drop (Suc (length (utf8_char c) - 1)) (utf8_char c @ bs) = bs"
    unfolding l by simp
  have "utf_8_decode (utf8_char c @ bs) =
      map_option ((#) c) (utf_8_decode (drop (Suc (length (utf8_char c) - 1)) (utf8_char c @ bs)))"
    by (subst utf_8_decode.simps)
       (simp only: n decode1_char[OF assms] if_False option.case prod.case)
  then show ?thesis unfolding d .
qed

lemma utf_8_decode_utf8: "list_all valid_cp t \<Longrightarrow> utf_8_decode (utf8 t) = Some t"
  by (induction t) (simp_all add: utf8_def utf_8_decode_Nil utf_8_decode_char)

text \<open>Valid text through the writer, and the file read back.\<close>

lemma valid_text_Nil [simp]: "valid_text []"
  by (simp add: valid_text_def)

lemma valid_text_Cons: "valid_text (c # s) \<longleftrightarrow> valid_cp c \<and> valid_text s"
  by (simp add: valid_text_def)

lemma valid_text_append [simp]: "valid_text (a @ b) \<longleftrightarrow> valid_text a \<and> valid_text b"
  by (simp add: valid_text_def)

lemma valid_cp_ascii [simp]: "valid_cp 34" "valid_cp 44" "valid_cp 13" "valid_cp 10"
  by (simp_all add: valid_cp_def is_surrogate_def)

lemma valid_double_quotes [simp]: "valid_text (double_quotes s) \<longleftrightarrow> valid_text s"
  by (induction s) (simp_all add: valid_text_Cons)

lemma valid_join_append [simp]: "valid_text (join_append s) \<longleftrightarrow> valid_text s"
  by (simp add: join_append_def valid_text_Cons)

lemma valid_join_fields: "valid_text (join_fields ss) \<longleftrightarrow> list_all valid_text ss"
  by (induction ss rule: join_fields.induct) (simp_all add: valid_text_Cons)

lemma valid_csv_line: "list_all valid_text ss \<Longrightarrow> valid_text (csv_line ss)"
  by (simp add: csv_line_def Let_def valid_text_Cons valid_join_fields)

lemma valid_concat: "list_all valid_text ts \<Longrightarrow> valid_text (concat ts)"
  by (induction ts) simp_all

lemma valid_encodable: "valid_text t \<Longrightarrow> encodable t"
  by (induction t) (simp_all add: valid_text_Cons encodable_Cons valid_cp_def)

lemma header_line_csv: "header_line = csv_line header_fields"
  by (simp add: header_line_def csv_line_def header_fields_def join_append_def needs_quote_def
      special_def ustr_def)

lemma valid_header_fields: "list_all valid_text header_fields"
  by (simp add: header_fields_def valid_text_def valid_cp_def is_surrogate_def ustr_def)

lemma table_text_lines:
  "list_all has_keys items \<Longrightarrow>
   table_text rp items = concat (map csv_line (header_fields # map (item_fields rp) items))"
  by (induction items) (simp_all add: table_text_def header_line_csv item_text_fields)

lemma read_back_text: "valid_text t \<Longrightarrow> read_csv_file (BOM_UTF8 @ utf8 t) = Some (csv_reader t)"
  by (simp add: read_csv_file_def utf_8_sig_decode_def BOM_UTF8_def utf_8_decode_utf8 valid_text_def)

lemma read_back_table:
  assumes "list_all valid_text r" "list_all (list_all valid_text) rows"
  shows "read_csv_file (BOM_UTF8 @ utf8 (concat (map csv_line (r # rows)))) = Some (r # rows)"
proof -
  have "list_all valid_text (map csv_line (r # rows))"
    using assms by (auto simp: list_all_iff intro: valid_csv_line)
  then have "valid_text (concat (map csv_line (r # rows)))" by (rule valid_concat)
  then show ?thesis using read_table[of "r # rows"]
    by (simp only: read_back_text csv_reader_def)
qed

lemma well_formed_ok:
  assumes "list_all has_keys items" "list_all (\<lambda>i. list_all encodable (item_fields rp i)) items"
  shows "list_all (item_ok rp) items"
  using assms by (auto simp: list_all_iff item_ok_fields)

lemma save_array_ok:
  assumes "can_open w" "list_all (item_ok rp) items"
  shows "fst (save_config rp (Inr (JArr items)) w) = ok_response
       \<and> files (snd (save_config rp (Inr (JArr items)) w)) SAVE_PATH = Some (file_bytes rp items)"
proof -
  have r: "raised rp (Inr (JArr items)) w = None"
    using assms by (simp add: raised_None_iff)
  then have "status_code (fst (save_config rp (Inr (JArr items)) w)) = 200"
    by (simp add: status_200_iff)
  from success_file[OF this] show ?thesis using r by (simp add: response_eq)
qed

section \<open>Reading the persisted file back\<close>

text \<open>
  Claim C10. The writer puts a field that holds a comma, a double quote, CR or LF between
  double quotes, doubling the quotes inside. Reading back what the writer wrote for any
  list of records gives these records. For every array of objects that have the three
  keys, with fields of valid text, and a destination that can be opened, the handler
  succeeds, and the persisted file, decoded and read by the csv reader, yields the header
  row followed by the submitted triples, each field in its textual form, in the submitted
  order, one record per object.
\<close>

theorem csv_round_trip:
  "(needs_quote s \<longrightarrow> join_append s = 34 # double_quotes s @ [34])
   \<and> csv_reader (concat (map csv_line rows)) = rows
   \<and> (can_open w \<and> list_all has_keys items
        \<and> list_all (\<lambda>i. list_all valid_text (item_fields rp i)) items \<longrightarrow>
        status_code (fst (save_config rp (Inr (JArr items)) w)) = 200
        \<and> (\<exists>bs. files (snd (save_config rp (Inr (JArr items)) w)) SAVE_PATH = Some bs
              \<and> read_csv_file bs = Some (header_fields # map (item_fields rp) items)))"
proof -
  have a: "needs_quote s \<longrightarrow> join_append s = 34 # double_quotes s @ [34]"
    by (simp add: join_append_def)
  have b: "csv_reader (concat (map csv_line rows)) = rows"
    by (simp add: csv_reader_def read_table)
  have c: "status_code (fst (save_config rp (Inr (JArr items)) w)) = 200
        \<and> (\<exists>bs. files (snd (save_config rp (Inr (JArr items)) w)) SAVE_PATH = Some bs
              \<and> read_csv_file bs = Some (header_fields # map (item_fields rp) items))"
    if h: "can_open w \<and> list_all has_keys items
        \<and> list_all (\<lambda>i. list_all valid_text (item_fields rp i)) items"
  proof -
    from h have k: "list_all has_keys items" by simp
    from h have v: "list_all (list_all valid_text) (map (item_fields rp) items)"
      by (simp add: list_all_iff)
    from h have "list_all (\<lambda>i. list_all encodable (item_fields rp i)) items"
      by (auto simp: list_all_iff intro: valid_encodable)
    then have ok: "list_all (item_ok rp) items" using k by (rule well_formed_ok[rotated])
    from h have o: "can_open w" by simp
    note s = save_array_ok[OF o ok]
    have "read_csv_file (file_bytes rp items) = Some (header_fields # map (item_fields rp) items)"
      unfolding file_bytes_def table_text_lines[OF k]
      by (rule read_back_table[OF valid_header_fields v])
    then show ?thesis using s by (simp add: ok_response_def)
  qed
  show ?thesis using a b c by blast
qed

theorem csv_round_trip_witness:
  "can_open world0
   \<and> item_fields no_repr (obj (JStr [97, 44, 98]) (JStr [34]) (JStr [97, 10, 98]))
       = [ [97, 44, 98], [34], [97, 10, 98] ]
   \<and> needs_quote [97, 44, 98] \<and> join_append [34] = [34, 34, 34, 34]
   \<and> (\<exists>bs. files (snd (save_config no_repr
               (Inr (JArr [obj (JStr [97, 44, 98]) (JStr [34]) (JStr [97, 10, 98])])) world0)) SAVE_PATH
             = Some bs
          \<and> read_csv_file bs = Some [header_fields, [ [97, 44, 98], [34], [97, 10, 98] ]])"
proof -
  let ?i = "obj (JStr [97, 44, 98]) (JStr [34]) (JStr [97, 10, 98])"
  have f: "item_fields no_repr ?i = [ [97, 44, 98], [34], [97, 10, 98] ]"
    by (simp add: item_fields_def item_row_obj field_text_def)
  have k: "list_all has_keys [?i]" by (simp add: obj_def ustr_def)
  have v: "list_all (\<lambda>i. list_all valid_text (item_fields no_repr i)) [?i]"
    by (simp add: f valid_text_def valid_cp_def is_surrogate_def)
  have q: "needs_quote [97, 44, 98]" by (simp add: needs_quote_def special_def)
  have q2: "needs_quote [34]" by (simp add: needs_quote_def special_def)
  note t = csv_round_trip[of "[34]" "[]" world0 "[?i]" no_repr]
  from t q2 have j: "join_append [34] = [34, 34, 34, 34]" by simp
  from t can_open_world0 k v f show ?thesis using q j by simp
qed







lemma plain_append [simp]: "plain_bytes (a @ b) \<longleftrightarrow> plain_bytes a \<and> plain_bytes b"
  by (auto simp: plain_bytes_def)




text \<open>The lines of a table whose fields hold no line terminator.\<close>

lemma no_newline_Nil [simp]: "no_newline []"
  by (simp add: no_newline_def)

lemma no_newline_Cons: "no_newline (c # s) \<longleftrightarrow> c \<noteq> 13 \<and> c \<noteq> 10 \<and> no_newline s"
  by (auto simp: no_newline_def)

lemma no_newline_append [simp]: "no_newline (a @ b) \<longleftrightarrow> no_newline a \<and> no_newline b"
  by (auto simp: no_newline_def)

lemma no_newline_double_quotes [simp]: "no_newline (double_quotes s) \<longleftrightarrow> no_newline s"
  by (induction s) (auto simp: no_newline_Cons)

lemma no_newline_join_append [simp]: "no_newline (join_append s) \<longleftrightarrow> no_newline s"
  by (simp add: join_append_def no_newline_Cons)



lemma utf8_crlf: "utf8 (t @ [13, 10]) = utf8 t @ [13, 10]"
  by (simp add: utf8_def utf8_char_def)









section \<open>One record per object, in order\<close>




text \<open>Files the handler writes are well-formed.\<close>

lemma wf_file_table:
  assumes "list_all has_keys items" "list_all (\<lambda>i. list_all valid_text (item_fields rp i)) items"
  shows "wf_file (file_bytes rp items)"
proof -
  from assms(2) have v: "list_all (list_all valid_text) (map (item_fields rp) items)"
    by (simp add: list_all_iff)
  have r: "read_csv_file (file_bytes rp items) = Some (header_fields # map (item_fields rp) items)"
    unfolding file_bytes_def table_text_lines[OF assms(1)]
    by (rule read_back_table[OF valid_header_fields v])
  have "list_all (\<lambda>r. length r = 3) (map (item_fields rp) items)"
    using assms(1) by (simp add: list_all_iff length_item_fields)
  then show ?thesis by (simp add: wf_file_def r)
qed

lemma takeWhile_ok_keys: "list_all has_keys (takeWhile (item_ok rp) items)"
proof -
  have "\<forall>i\<in>set (takeWhile (item_ok rp) items). item_ok rp i"
    by (auto dest: set_takeWhileD)
  then show ?thesis by (simp add: list_all_iff item_ok_iff)
qed

text \<open>The handler on a device: which exception, which file.\<close>

lemma f_write_on_encode_fails:
  "utf_8_encode t = Inl e \<Longrightarrow> f_write_on dev t f = (Some e, f)"
  by (simp add: f_write_on_def)

lemma f_write_on_ok:
  "utf_8_encode t = Inr bs \<Longrightarrow> write_fault dev (writes f) = None \<Longrightarrow>
   f_write_on dev t f =
     (None, \<lparr>handed = handed f @ (if sig_due f then BOM_UTF8 else []) @ bs, sig_due = False,
             writes = Suc (writes f), failed = failed f\<rparr>)"
  by (simp add: f_write_on_def)

lemma f_write_on_fault:
  "utf_8_encode t = Inr bs \<Longrightarrow> write_fault dev (writes f) = Some (n, m) \<Longrightarrow>
   f_write_on dev t f =
     (Some (OSError_nofile n m),
      \<lparr>handed = handed f @ (if sig_due f then BOM_UTF8 else []) @ bs, sig_due = False,
       writes = Suc (writes f), failed = True\<rparr>)"
  by (simp add: f_write_on_def)

lemma write_items_on_raised:
  "fst (write_items_on rp dev items f) = items_raised rp dev (writes f) items"
proof (induction items arbitrary: f)
  case Nil
  then show ?case by simp
next
  case (Cons item rest)
  show ?case
  proof (cases "item_row item")
    case (Inl e)
    then show ?thesis by (simp add: item_failure_def)
  next
    case (Inr row)
    show ?thesis
    proof (cases "utf_8_encode (csv_record rp row)")
      case (Inl e)
      then show ?thesis using Inr by (simp add: item_failure_def f_write_on_encode_fails)
    next
      case bs: (Inr bs)
      show ?thesis
      proof (cases "write_fault dev (writes f)")
        case None
        show ?thesis using Inr bs None
          by (simp add: item_failure_def f_write_on_ok[OF bs None] Cons.IH)
      next
        case (Some nm)
        then obtain n m where nm: "write_fault dev (writes f) = Some (n, m)" by (cases nm) auto
        show ?thesis using Inr bs nm
          by (simp add: item_failure_def f_write_on_fault[OF bs nm])
      qed
    qed
  qed
qed

lemma header_encode: "utf_8_encode (csv_record rp header_row) = Inr (utf8 header_line)"
  by (simp add: header_record utf_8_encode_ok[OF header_encodable])

lemma header_write_on_ok:
  "write_fault dev 0 = None \<Longrightarrow>
   f_write_on dev (csv_record rp header_row) new_dfile =
     (None, \<lparr>handed = BOM_UTF8 @ utf8 header_line, sig_due = False, writes = 1, failed = False\<rparr>)"
  by (simp add: f_write_on_def header_encode new_dfile_def)

lemma header_write_on_fault:
  "write_fault dev 0 = Some (n, m) \<Longrightarrow>
   f_write_on dev (csv_record rp header_row) new_dfile =
     (Some (OSError_nofile n m),
      \<lparr>handed = BOM_UTF8 @ utf8 header_line, sig_due = False, writes = 1, failed = True\<rparr>)"
  by (simp add: f_write_on_def header_encode new_dfile_def)

lemma with_body_on_raised: "fst (with_body_on rp dev data new_dfile) = body_raised rp dev data"
proof (cases "write_fault dev 0")
  case None
  note hw = header_write_on_ok[OF None, of rp]
  show ?thesis
  proof (cases "py_iter data")
    case (Inl e)
    then show ?thesis using None by (simp add: with_body_on_def body_raised_def hw)
  next
    case (Inr items)
    then show ?thesis using None
      by (simp add: with_body_on_def body_raised_def hw write_items_on_raised)
  qed
next
  case (Some nm)
  then obtain n m where nm: "write_fault dev 0 = Some (n, m)" by (cases nm) auto
  then show ?thesis
    by (simp add: with_body_on_def body_raised_def header_write_on_fault[OF nm])
qed

lemma response_on_eq:
  "fst (save_config_on rp dev req w) =
     (case raised_on rp dev req w of None \<Rightarrow> ok_response | Some e \<Rightarrow> error_response e)"
proof (cases req)
  case (Inl e)
  then show ?thesis by (simp add: save_config_on_def raised_on_def fst_on_error)
next
  case (Inr data)
  show ?thesis
  proof (cases "open_w SAVE_PATH w")
    case (Inl e)
    then show ?thesis using Inr by (simp add: save_config_on_def raised_on_def fst_on_error)
  next
    case w1: (Inr w1)
    obtain r f where b: "with_body_on rp dev data new_dfile = (r, f)"
      by (cases "with_body_on rp dev data new_dfile") auto
    then have r: "r = body_raised rp dev data" using with_body_on_raised[of rp dev data] by simp
    show ?thesis
    proof (cases "close_fault dev")
      case None
      then show ?thesis using Inr w1 b r
        by (simp add: save_config_on_def raised_on_def f_close_on_def fst_on_error fst_on_success
            split: option.splits)
    next
      case (Some nm)
      then obtain n m where "close_fault dev = Some (n, m)" by (cases nm) auto
      then show ?thesis using Inr w1 b
        by (simp add: save_config_on_def raised_on_def f_close_on_def fst_on_error)
    qed
  qed
qed

lemma items_raised_None:
  "items_raised rp dev k items = None \<longleftrightarrow>
     list_all (item_ok rp) items \<and> (\<forall>j<length items. write_fault dev (k + j) = None)"
proof (induction items arbitrary: k)
  case Nil
  then show ?case by simp
next
  case (Cons i rest)
  have s: "(\<forall>j<Suc (length rest). write_fault dev (k + j) = None) \<longleftrightarrow>
      write_fault dev k = None \<and> (\<forall>j<length rest. write_fault dev (Suc k + j) = None)"
  proof
    assume a: "\<forall>j<Suc (length rest). write_fault dev (k + j) = None"
    then have "write_fault dev (k + 0) = None" by blast
    moreover have "\<forall>j<length rest. write_fault dev (Suc k + j) = None"
    proof (intro allI impI)
      fix j assume "j < length rest"
      then have "Suc j < Suc (length rest)" by simp
      with a have "write_fault dev (k + Suc j) = None" by blast
      then show "write_fault dev (Suc k + j) = None" by simp
    qed
    ultimately show "write_fault dev k = None \<and> (\<forall>j<length rest. write_fault dev (Suc k + j) = None)"
      by simp
  next
    assume a: "write_fault dev k = None \<and> (\<forall>j<length rest. write_fault dev (Suc k + j) = None)"
    show "\<forall>j<Suc (length rest). write_fault dev (k + j) = None"
    proof (intro allI impI)
      fix j assume j: "j < Suc (length rest)"
      show "write_fault dev (k + j) = None"
      proof (cases j)
        case 0
        then show ?thesis using a by simp
      next
        case (Suc j')
        then have "j' < length rest" using j by simp
        with a have "write_fault dev (Suc k + j') = None" by blast
        then show ?thesis using Suc by simp
      qed
    qed
  qed
  show ?case
  proof (cases "item_failure rp i")
    case None
    then have ok: "item_ok rp i" by (simp add: item_ok_def)
    show ?thesis
    proof (cases "write_fault dev k")
      case wn: None
      show ?thesis using None wn ok Cons.IH[of "Suc k"] s by simp
    next
      case (Some nm)
      then obtain n m where "write_fault dev k = Some (n, m)" by (cases nm) auto
      then show ?thesis using None s by simp
    qed
  next
    case (Some e)
    then have "\<not> item_ok rp i" by (simp add: item_ok_def)
    then show ?thesis using Some by simp
  qed
qed

lemma no_fault_split:
  "no_fault dev n \<longleftrightarrow>
     close_fault dev = None \<and> write_fault dev 0 = None \<and> (\<forall>j<n. write_fault dev (1 + j) = None)"
proof
  assume a: "no_fault dev n"
  then have "write_fault dev 0 = None" by (simp add: no_fault_def)
  moreover have "\<forall>j<n. write_fault dev (1 + j) = None"
  proof (intro allI impI)
    fix j assume "j < n"
    then have "Suc j \<le> n" by simp
    then show "write_fault dev (1 + j) = None" using a by (simp add: no_fault_def)
  qed
  ultimately show "close_fault dev = None \<and> write_fault dev 0 = None
      \<and> (\<forall>j<n. write_fault dev (1 + j) = None)"
    using a by (simp add: no_fault_def)
next
  assume a: "close_fault dev = None \<and> write_fault dev 0 = None
      \<and> (\<forall>j<n. write_fault dev (1 + j) = None)"
  have "\<forall>k\<le>n. write_fault dev k = None"
  proof (intro allI impI)
    fix k assume k: "k \<le> n"
    show "write_fault dev k = None"
    proof (cases k)
      case 0
      then show ?thesis using a by simp
    next
      case (Suc j)
      then have "j < n" using k by simp
      then have "write_fault dev (1 + j) = None" using a by blast
      then show ?thesis using Suc by simp
    qed
  qed
  then show "no_fault dev n" using a by (simp add: no_fault_def)
qed

lemma raised_on_None_iff:
  "raised_on rp dev req w = None \<longleftrightarrow>
     (\<exists>data items. req = Inr data \<and> can_open w \<and> py_iter data = Inr items
        \<and> list_all (item_ok rp) items \<and> no_fault dev (length items))"
proof (cases req)
  case (Inl e)
  then show ?thesis by (simp add: raised_on_def)
next
  case (Inr data)
  show ?thesis
  proof (cases "open_w SAVE_PATH w")
    case (Inl e)
    then have "\<not> can_open w" using cannot_open_iff by blast
    then show ?thesis using Inr Inl by (simp add: raised_on_def)
  next
    case w1: (Inr w1)
    then have o: "can_open w" using can_open_iff by blast
    show ?thesis
    proof (cases "close_fault dev")
      case (Some nm)
      then obtain n m where c: "close_fault dev = Some (n, m)" by (cases nm) auto
      then have "\<And>k. \<not> no_fault dev k" by (simp add: no_fault_def)
      then show ?thesis using Inr w1 c by (simp add: raised_on_def)
    next
      case None
      show ?thesis
      proof (cases "write_fault dev 0")
        case (Some nm)
        then obtain n m where c: "write_fault dev 0 = Some (n, m)" by (cases nm) auto
        then have "\<And>k. \<not> no_fault dev k" by (simp add: no_fault_split)
        then show ?thesis using Inr w1 None c by (simp add: raised_on_def body_raised_def)
      next
        case w0: None
        show ?thesis
        proof (cases "py_iter data")
          case (Inl e)
          then show ?thesis using Inr w1 None w0 by (simp add: raised_on_def body_raised_def)
        next
          case items: (Inr items)
          show ?thesis using Inr w1 None w0 items o
            by (simp add: raised_on_def body_raised_def items_raised_None no_fault_split)
        qed
      qed
    qed
  qed
qed

text \<open>When the device does not fail, the handler is \<open>save_config\<close>.\<close>

lemma write_items_on_sim:
  assumes "\<not> failed f" "\<not> failed (snd (write_items_on rp dev items f))"
  shows "write_items rp items \<lparr>buf = handed f, first = sig_due f\<rparr> =
           (fst (write_items_on rp dev items f),
            \<lparr>buf = handed (snd (write_items_on rp dev items f)),
             first = sig_due (snd (write_items_on rp dev items f))\<rparr>)"
  using assms
proof (induction items arbitrary: f)
  case Nil
  then show ?case by simp
next
  case (Cons item rest)
  show ?case
  proof (cases "item_row item")
    case (Inl e)
    then show ?thesis by simp
  next
    case (Inr row)
    show ?thesis
    proof (cases "utf_8_encode (csv_record rp row)")
      case (Inl e)
      then show ?thesis using Inr
        by (simp add: f_write_on_encode_fails writer_writerow_def f_write_def)
    next
      case bs: (Inr bs)
      show ?thesis
      proof (cases "write_fault dev (writes f)")
        case (Some nm)
        then obtain n m where nm: "write_fault dev (writes f) = Some (n, m)" by (cases nm) auto
        have "failed (snd (write_items_on rp dev (item # rest) f))"
          using Inr by (simp add: f_write_on_fault[OF bs nm])
        then show ?thesis using Cons.prems(2) by simp
      next
        case None
        let ?f' = "\<lparr>handed = handed f @ (if sig_due f then BOM_UTF8 else []) @ bs, sig_due = False,
             writes = Suc (writes f), failed = failed f\<rparr>"
        have w: "write_items_on rp dev (item # rest) f = write_items_on rp dev rest ?f'"
          using Inr by (simp add: f_write_on_ok[OF bs None])
        have t: "write_items rp (item # rest) \<lparr>buf = handed f, first = sig_due f\<rparr> =
            write_items rp rest \<lparr>buf = handed ?f', first = sig_due ?f'\<rparr>"
          using Inr bs by (simp add: writer_writerow_def f_write_def)
        have "\<not> failed ?f'" using Cons.prems(1) by simp
        moreover have "\<not> failed (snd (write_items_on rp dev rest ?f'))"
          using Cons.prems(2) w by simp
        ultimately show ?thesis using Cons.IH[of ?f'] w t by simp
      qed
    qed
  qed
qed

lemma with_body_on_sim:
  assumes "\<not> failed (snd (with_body_on rp dev data new_dfile))"
  shows "with_body rp data new_file =
           (fst (with_body_on rp dev data new_dfile),
            \<lparr>buf = handed (snd (with_body_on rp dev data new_dfile)),
             first = sig_due (snd (with_body_on rp dev data new_dfile))\<rparr>)"
proof (cases "write_fault dev 0")
  case (Some nm)
  then obtain n m where nm: "write_fault dev 0 = Some (n, m)" by (cases nm) auto
  have "failed (snd (with_body_on rp dev data new_dfile))"
    by (simp add: with_body_on_def header_write_on_fault[OF nm])
  then show ?thesis using assms by simp
next
  case None
  note hw = header_write_on_ok[OF None, of rp]
  let ?f1 = "\<lparr>handed = BOM_UTF8 @ utf8 header_line, sig_due = False, writes = 1, failed = False\<rparr>"
  show ?thesis
  proof (cases "py_iter data")
    case (Inl e)
    then show ?thesis
      by (simp add: with_body_on_def hw with_body_def write_header)
  next
    case (Inr items)
    have b: "with_body_on rp dev data new_dfile = write_items_on rp dev items ?f1"
      using Inr by (simp add: with_body_on_def hw)
    have "\<not> failed (snd (write_items_on rp dev items ?f1))" using assms b by simp
    from write_items_on_sim[of ?f1 rp dev items, OF _ this]
    show ?thesis using Inr b by (simp add: with_body_def write_header)
  qed
qed

lemma no_failure_same:
  assumes "\<not> device_failed rp dev req w"
  shows "save_config_on rp dev req w = save_config rp req w"
proof (cases req)
  case (Inl e)
  then show ?thesis by (simp add: save_config_on_def save_config_def)
next
  case (Inr data)
  show ?thesis
  proof (cases "open_w SAVE_PATH w")
    case (Inl e)
    then show ?thesis using Inr by (simp add: save_config_on_def save_config_def)
  next
    case w1: (Inr w1)
    from assms Inr w1 have c: "close_fault dev = None"
      by (cases "close_fault dev") (simp_all add: device_failed_def)
    from assms Inr w1 have nf: "\<not> failed (snd (with_body_on rp dev data new_dfile))"
      by (simp add: device_failed_def)
    obtain r f where b: "with_body_on rp dev data new_dfile = (r, f)"
      by (cases "with_body_on rp dev data new_dfile") auto
    from with_body_on_sim[OF nf] b have t: "with_body rp data new_file = (r, \<lparr>buf = handed f, first = sig_due f\<rparr>)"
      by simp
    from nf b have f: "\<not> failed f" by simp
    show ?thesis using Inr w1 b t c f
      by (simp add: save_config_on_def save_config_def f_close_on_def f_close_def split: option.splits)
  qed
qed

lemma write_items_on_failed:
  "(\<forall>k. write_fault dev k = None) \<Longrightarrow> failed (snd (write_items_on rp dev items f)) = failed f"
proof (induction items arbitrary: f)
  case Nil
  then show ?case by simp
next
  case (Cons item rest)
  then have n: "write_fault dev (writes f) = None" by simp
  show ?case
  proof (cases "item_row item")
    case (Inl e)
    then show ?thesis by simp
  next
    case (Inr row)
    show ?thesis
    proof (cases "utf_8_encode (csv_record rp row)")
      case (Inl e)
      then show ?thesis using Inr by (simp add: f_write_on_encode_fails)
    next
      case bs: (Inr bs)
      show ?thesis using Inr Cons.IH[OF Cons.prems] by (simp add: f_write_on_ok[OF bs n])
    qed
  qed
qed

lemma never_fails:
  assumes "\<forall>k. write_fault dev k = None" "close_fault dev = None"
  shows "\<not> device_failed rp dev req w"
proof -
  have "\<not> failed (snd (with_body_on rp dev data new_dfile))" for data
  proof (cases "py_iter data")
    case (Inl e)
    then show ?thesis using assms(1) by (simp add: with_body_on_def header_write_on_ok)
  next
    case (Inr items)
    then show ?thesis using assms(1)
      by (simp add: with_body_on_def header_write_on_ok write_items_on_failed)
  qed
  then show ?thesis using assms(2) by (simp add: device_failed_def split: sum.splits)
qed

lemma reliable_never_fails: "\<not> device_failed rp reliable req w"
  by (rule never_fails) (simp_all add: reliable_def)

lemma save_config_on_reliable: "save_config_on rp reliable req w = save_config rp req w"
  by (rule no_failure_same[OF reliable_never_fails])

text \<open>The file and the directories after a request on a device.\<close>

lemma early_same:
  assumes "req = Inl e \<or> \<not> can_open w"
  shows "save_config_on rp dev req w = save_config rp req w"
proof -
  have "\<not> device_failed rp dev req w"
  proof (cases req)
    case (Inl e')
    then show ?thesis by (simp add: device_failed_def)
  next
    case (Inr data)
    with assms have "\<not> can_open w" by simp
    then obtain e' where "open_w SAVE_PATH w = Inl e'" using cannot_open_iff by blast
    then show ?thesis using Inr by (simp add: device_failed_def)
  qed
  then show ?thesis by (rule no_failure_same)
qed

lemma file_on_opened:
  assumes "can_open w"
  shows "files (snd (save_config_on rp dev (Inr data) w)) SAVE_PATH = Some (written_on rp dev data)"
proof -
  from assms obtain w1 where w1: "open_w SAVE_PATH w = Inr w1" using can_open_iff by blast
  obtain r f where b: "with_body_on rp dev data new_dfile = (r, f)"
    by (cases "with_body_on rp dev data new_dfile") auto
  show ?thesis using w1 b
    by (auto simp: save_config_on_def f_close_on_def written_on_def split: option.splits)
qed

lemma dirs_on: "dirs (snd (save_config_on rp dev req w)) = dirs w"
proof (cases "(\<exists>e. req = Inl e) \<or> \<not> can_open w")
  case True
  then obtain e where "req = Inl e \<or> \<not> can_open w" by blast
  from early_same[OF this] show ?thesis using save_config_dirs[of rp req w] by simp
next
  case False
  then obtain data where d: "req = Inr data" and o: "can_open w" by (cases req) auto
  from o obtain w1 where w1: "open_w SAVE_PATH w = Inr w1" using can_open_iff by blast
  obtain r f where b: "with_body_on rp dev data new_dfile = (r, f)"
    by (cases "with_body_on rp dev data new_dfile") auto
  show ?thesis using d w1 b open_w_dirs[OF w1]
    by (auto simp: save_config_on_def f_close_on_def on_error_def on_success_def split: option.splits)
qed

lemma no_fault_code [code]:
  "no_fault dev n =
     (list_all (\<lambda>k. write_fault dev k = None) [0..<Suc n] \<and> close_fault dev = None)"
  by (auto simp: no_fault_def list_all_iff less_Suc_eq_le)

text \<open>A failure of the device is an exception in the handler.\<close>

lemma write_items_on_failed_raised:
  "\<not> failed f \<Longrightarrow> failed (snd (write_items_on rp dev items f)) \<Longrightarrow>
   fst (write_items_on rp dev items f) \<noteq> None"
proof (induction items arbitrary: f)
  case Nil
  then show ?case by simp
next
  case (Cons item rest)
  show ?case
  proof (cases "item_row item")
    case (Inl e)
    then show ?thesis by simp
  next
    case (Inr row)
    show ?thesis
    proof (cases "utf_8_encode (csv_record rp row)")
      case (Inl e)
      then show ?thesis using Inr by (simp add: f_write_on_encode_fails)
    next
      case bs: (Inr bs)
      show ?thesis
      proof (cases "write_fault dev (writes f)")
        case (Some nm)
        then obtain n m where nm: "write_fault dev (writes f) = Some (n, m)" by (cases nm) auto
        show ?thesis using Inr by (simp add: f_write_on_fault[OF bs nm])
      next
        case None
        let ?f' = "\<lparr>handed = handed f @ (if sig_due f then BOM_UTF8 else []) @ bs, sig_due = False,
             writes = Suc (writes f), failed = failed f\<rparr>"
        have w: "write_items_on rp dev (item # rest) f = write_items_on rp dev rest ?f'"
          using Inr by (simp add: f_write_on_ok[OF bs None])
        have "\<not> failed ?f'" using Cons.prems(1) by simp
        moreover have "failed (snd (write_items_on rp dev rest ?f'))"
          using Cons.prems(2) w by simp
        ultimately have "fst (write_items_on rp dev rest ?f') \<noteq> None" by (rule Cons.IH)
        then show ?thesis using w by simp
      qed
    qed
  qed
qed

lemma with_body_on_failed_raised:
  assumes "failed (snd (with_body_on rp dev data new_dfile))"
  shows "body_raised rp dev data \<noteq> None"
proof (cases "write_fault dev 0")
  case (Some nm)
  then show ?thesis by (cases nm) (simp add: body_raised_def)
next
  case None
  note hw = header_write_on_ok[OF None, of rp]
  let ?f1 = "\<lparr>handed = BOM_UTF8 @ utf8 header_line, sig_due = False, writes = 1, failed = False\<rparr>"
  show ?thesis
  proof (cases "py_iter data")
    case (Inl e)
    then show ?thesis using None by (simp add: body_raised_def)
  next
    case (Inr items)
    have b: "with_body_on rp dev data new_dfile = write_items_on rp dev items ?f1"
      using Inr by (simp add: with_body_on_def hw)
    have "failed (snd (write_items_on rp dev items ?f1))" using assms b by simp
    from write_items_on_failed_raised[of ?f1 rp dev items, OF _ this]
    have "fst (with_body_on rp dev data new_dfile) \<noteq> None" using b by simp
    then show ?thesis by (simp add: with_body_on_raised)
  qed
qed

lemma device_failed_raised:
  assumes "device_failed rp dev req w"
  shows "raised_on rp dev req w \<noteq> None"
proof (cases req)
  case (Inl e)
  then show ?thesis by (simp add: raised_on_def)
next
  case (Inr data)
  show ?thesis
  proof (cases "open_w SAVE_PATH w")
    case (Inl e)
    then show ?thesis using Inr by (simp add: raised_on_def)
  next
    case w1: (Inr w1)
    show ?thesis
    proof (cases "close_fault dev")
      case (Some nm)
      then show ?thesis using Inr w1 by (cases nm) (simp add: raised_on_def)
    next
      case None
      with assms Inr w1 have "failed (snd (with_body_on rp dev data new_dfile))"
        by (simp add: device_failed_def)
      then have "body_raised rp dev data \<noteq> None" by (rule with_body_on_failed_raised)
      then show ?thesis using Inr w1 None by (simp add: raised_on_def)
    qed
  qed
qed

lemma errno_28_text:
  "exn_str (OSError_nofile 28 ''No space left on device'') = ustr ''[Errno 28] No space left on device''"
  by (simp add: dec_digits.simps ustr_def)

lemma item_failure_ok: "item_ok rp i \<Longrightarrow> item_failure rp i = None"
  by (simp add: item_ok_def)

lemma example_raised_on_full:
  "raised_on rp full_device (Inr example_body) world0 =
     Some (OSError_nofile 28 ''No space left on device'')"
  by (simp add: raised_on_def open_world0 full_device_def)

lemma example_failed_on_full: "device_failed rp full_device (Inr example_body) world0"
  by (simp add: device_failed_def open_world0 full_device_def)

section \<open>The response\<close>

text \<open>
  Claim C2, as the specification states it, fails: the handler also fails on a body that
  is JSON, holds no object at all and meets no I/O error. On a device that never fails,
  with the destination openable, the body \<open>5\<close> is answered with status 500, the iteration
  over an int raising a \<open>TypeError\<close>.
\<close>

theorem failure_not_listed_counterexample:
  "status_code (fst (save_config_on no_repr reliable (Inr (JInt 5)) world0)) = 500
   \<and> status_code (fst (save_config no_repr (Inr (JInt 5)) world0)) = 500
   \<and> \<not> listed_failure (Inr (JInt 5)) world0
   \<and> \<not> device_failed no_repr reliable (Inr (JInt 5)) world0"
proof -
  have "raised no_repr (Inr (JInt 5)) world0 \<noteq> None"
    by (simp add: raised_None_iff)
  then have "status_code (fst (save_config no_repr (Inr (JInt 5)) world0)) = 500"
    by (simp add: status_500_iff)
  then show ?thesis using can_open_world0
    by (simp add: save_config_on_reliable reliable_never_fails listed_failure_def)
qed

text \<open>
  Claim C2, amended. The response is the success response (status 200, \<open>success\<close>,
  \<open>Saved to SwapDatas/InputDatas.csv\<close>) when no exception is raised, and otherwise the
  error response (status 500, \<open>error\<close>) whose message is the text of the first exception
  raised, or of the one raised by the close, whatever its kind. No exception is raised
  exactly when the body is JSON, the destination can be opened, the body can be iterated,
  every item the iteration yields is a dict with the three keys whose three fields can be
  encoded, and the device fails at none of the writes (one for the header, one for each
  item) nor at the close. Each of the listed causes of failure is a failure, an I/O error
  being a destination that cannot be opened or a failure of the device at a write or at
  the close.
\<close>

theorem save_config_response:
  "fst (save_config_on rp dev req w) =
     (case raised_on rp dev req w of
        None \<Rightarrow> \<lparr>status_code = 200, status = ''success'',
                  message = ustr ''Saved to SwapDatas/InputDatas.csv''\<rparr>
      | Some e \<Rightarrow> \<lparr>status_code = 500, status = ''error'', message = exn_str e\<rparr>)
   \<and> (raised_on rp dev req w = None \<longleftrightarrow>
        (\<exists>data items. req = Inr data \<and> can_open w \<and> py_iter data = Inr items
           \<and> (\<forall>i\<in>set items. has_keys i \<and> list_all encodable (item_fields rp i))
           \<and> no_fault dev (length items)))
   \<and> (listed_failure req w \<or> device_failed rp dev req w \<longrightarrow> raised_on rp dev req w \<noteq> None)
   \<and> (status_code (fst (save_config_on rp dev req w)) = 200 \<longleftrightarrow> raised_on rp dev req w = None)
   \<and> (status_code (fst (save_config_on rp dev req w)) = 500 \<longleftrightarrow> raised_on rp dev req w \<noteq> None)"
proof -
  have a: "fst (save_config_on rp dev req w) =
     (case raised_on rp dev req w of
        None \<Rightarrow> \<lparr>status_code = 200, status = ''success'',
                  message = ustr ''Saved to SwapDatas/InputDatas.csv''\<rparr>
      | Some e \<Rightarrow> \<lparr>status_code = 500, status = ''error'', message = exn_str e\<rparr>)"
    by (simp add: response_on_eq ok_response_def error_response_def split: option.splits)
  have b: "raised_on rp dev req w = None \<longleftrightarrow>
        (\<exists>data items. req = Inr data \<and> can_open w \<and> py_iter data = Inr items
           \<and> (\<forall>i\<in>set items. has_keys i \<and> list_all encodable (item_fields rp i))
           \<and> no_fault dev (length items))"
    by (simp add: raised_on_None_iff list_all_iff item_ok_fields)
  have c: "raised_on rp dev req w \<noteq> None" if l: "listed_failure req w"
  proof
    assume "raised_on rp dev req w = None"
    then obtain data items where d: "req = Inr data" "can_open w" "py_iter data = Inr items"
      "\<forall>i\<in>set items. has_keys i"
      using b by blast
    from l d(1,2) obtain xs where x: "data = JArr xs" "list_ex lacks_key xs"
      by (auto simp: listed_failure_def split: json.splits)
    then obtain i where i: "i \<in> set xs" "lacks_key i" by (auto simp: list_ex_iff)
    from i(2) have "\<not> has_keys i" by (rule lacks_key_not_has)
    then show False using d(3,4) x(1) i(1) by auto
  qed
  have d: "status_code (fst (save_config_on rp dev req w)) = 200 \<longleftrightarrow> raised_on rp dev req w = None"
    by (simp add: response_on_eq ok_response_def error_response_def split: option.splits)
  have e: "status_code (fst (save_config_on rp dev req w)) = 500 \<longleftrightarrow> raised_on rp dev req w \<noteq> None"
    by (simp add: response_on_eq ok_response_def error_response_def split: option.splits)
  show ?thesis using a b c d e device_failed_raised[of rp dev req w] by blast
qed

theorem save_config_response_witness:
  "listed_failure (Inr body_missing_value) world0
   \<and> fst (save_config_on no_repr reliable (Inr body_missing_value) world0) =
       \<lparr>status_code = 500, status = ''error'', message = exn_str (KeyError (ustr ''value''))\<rparr>
   \<and> no_fault reliable 1
   \<and> raised_on no_repr reliable (Inr example_body) world0 = None
   \<and> fst (save_config_on no_repr reliable (Inr example_body) world0) =
       \<lparr>status_code = 200, status = ''success'', message = ustr ''Saved to SwapDatas/InputDatas.csv''\<rparr>
   \<and> device_failed no_repr full_device (Inr example_body) world0
   \<and> fst (save_config_on no_repr full_device (Inr example_body) world0) =
       \<lparr>status_code = 500, status = ''error'', message = ustr ''[Errno 28] No space left on device''\<rparr>"
proof -
  have l: "listed_failure (Inr body_missing_value) world0"
    by (simp add: listed_failure_def body_missing_value_def obj_def ustr_def)
  note t1 = save_config_response[of no_repr reliable "Inr body_missing_value" world0]
  note t2 = save_config_response[of no_repr reliable "Inr example_body" world0]
  note t3 = save_config_response[of no_repr full_device "Inr example_body" world0]
  have nf: "no_fault reliable 1" by (simp add: no_fault_def reliable_def)
  have ex: "\<forall>i\<in>set [obj (JStr (ustr ''Audio'')) (JStr (ustr ''Volume'')) (JInt 80)].
      has_keys i \<and> list_all encodable (item_fields no_repr i)"
    using example_item_ok[of no_repr] by (simp add: item_ok_fields)
  have "\<exists>data items. Inr example_body = (Inr data :: exn + json) \<and> can_open world0
      \<and> py_iter data = Inr items
      \<and> (\<forall>i\<in>set items. has_keys i \<and> list_all encodable (item_fields no_repr i))
      \<and> no_fault reliable (length items)"
    using ex nf can_open_world0
    by (intro exI[of _ example_body] exI[of _ "[obj (JStr (ustr ''Audio'')) (JStr (ustr ''Volume'')) (JInt 80)]"])
       (simp add: example_body_def)
  with t2 have r2: "raised_on no_repr reliable (Inr example_body) world0 = None" by blast
  have ok1: "item_failure no_repr (obj (JStr (ustr ''a'')) (JStr (ustr ''b'')) (JInt 1)) = None"
    by (rule item_failure_ok)
       (simp add: item_ok_fields item_fields_def item_row_obj field_text_def py_str_int_def
         dec_digits.simps encodable_def is_surrogate_def ustr_def, simp add: obj_def)
  have bad: "item_failure no_repr (JObj [(ustr ''panel'', JStr (ustr ''c'')), (ustr ''parameter'', JStr (ustr ''d''))])
       = Some (KeyError (ustr ''value''))"
    by (simp add: item_failure_def item_row_def ustr_def)
  have r1: "raised_on no_repr reliable (Inr body_missing_value) world0 = Some (KeyError (ustr ''value''))"
    using ok1 bad
    by (simp add: raised_on_def open_world0 reliable_def body_raised_def body_missing_value_def)
  from t3 example_failed_on_full[of no_repr]
  have "raised_on no_repr full_device (Inr example_body) world0 \<noteq> None" by blast
  have r3: "fst (save_config_on no_repr full_device (Inr example_body) world0) =
       \<lparr>status_code = 500, status = ''error'', message = ustr ''[Errno 28] No space left on device''\<rparr>"
    using t3 by (simp add: example_raised_on_full errno_28_text del: exn_str.simps)
  have r1': "fst (save_config_on no_repr reliable (Inr body_missing_value) world0) =
       \<lparr>status_code = 500, status = ''error'', message = exn_str (KeyError (ustr ''value''))\<rparr>"
    using t1 by (simp add: r1 del: exn_str.simps)
  have r2': "fst (save_config_on no_repr reliable (Inr example_body) world0) =
       \<lparr>status_code = 200, status = ''success'', message = ustr ''Saved to SwapDatas/InputDatas.csv''\<rparr>"
    using t2 by (simp add: r2)
  show ?thesis using l nf r2 r1' r2' r3 example_failed_on_full[of no_repr] by blast
qed

lemma open_no_folder:
  assumes "\<not> os_path_exists SAVE_FOLDER w"
  shows "open_w SAVE_PATH w =
           Inl (OSError 2 ''No such file or directory'' ''SwapDatas/InputDatas.csv'')"
  using assms
  by (simp add: open_w_def parent_SAVE_PATH os_path_exists_def SAVE_FOLDER_def)
     (simp add: SAVE_PATH_eq)

lemma open_folder_is_file:
  assumes "SAVE_FOLDER \<in> dom (files w)"
  shows "open_w SAVE_PATH w = Inl (OSError 20 ''Not a directory'' ''SwapDatas/InputDatas.csv'')"
  using assms
  by (simp add: open_w_def parent_SAVE_PATH SAVE_FOLDER_def)
     (simp add: SAVE_PATH_eq)

lemma save_config_on_open_fails:
  assumes "open_w SAVE_PATH w = Inl e"
  shows "save_config_on rp dev (Inr data) w = on_error e w"
  using assms by (simp add: save_config_on_def)

lemma startup_cases:
  "startup w =
     (if os_path_exists SAVE_FOLDER w then Inr w
      else (case denied w SAVE_FOLDER of
              Some (n, m) \<Rightarrow> Inl (OSError n m SAVE_FOLDER)
            | None \<Rightarrow> Inr (w\<lparr>dirs := insert SAVE_FOLDER (dirs w)\<rparr>)))"
  by (simp add: startup_def os_makedirs_def)

lemma can_open_started:
  assumes "startup w = Inr w'" "SAVE_FOLDER \<notin> dom (files w)" "SAVE_PATH \<notin> dirs w"
    "denied w SAVE_PATH = None"
  shows "can_open w'"
proof (cases "os_path_exists SAVE_FOLDER w")
  case True
  then have "w' = w" using assms(1) by (simp add: startup_cases)
  then show ?thesis using True assms(2-4) by (simp add: can_open_def os_path_exists_def)
next
  case False
  then have "w' = w\<lparr>dirs := insert SAVE_FOLDER (dirs w)\<rparr>"
    using assms(1) by (auto simp: startup_cases split: option.splits)
  then show ?thesis using assms(2-4) SAVE_FOLDER_not_PATH by (auto simp: can_open_def)
qed

lemma py_iter_JArr: "py_iter (JArr items) = Inr items"
  by simp

section \<open>The folder\<close>

text \<open>
  Claim C7, as the specification states it, fails: the handler does not create the folder.
  In a world without the folder, a request with the empty array gets the error response
  for errno 2, and afterwards there is still no folder and no file.
\<close>

theorem missing_folder_counterexample:
  "fst (save_config no_repr (Inr (JArr [])) world_nodir) =
     \<lparr>status_code = 500, status = ''error'',
      message = exn_str (OSError 2 ''No such file or directory'' ''SwapDatas/InputDatas.csv'')\<rparr>
   \<and> dirs (snd (save_config no_repr (Inr (JArr [])) world_nodir)) = {}
   \<and> files (snd (save_config no_repr (Inr (JArr [])) world_nodir)) SAVE_PATH = None"
proof -
  have o: "open_w SAVE_PATH world_nodir =
      Inl (OSError 2 ''No such file or directory'' ''SwapDatas/InputDatas.csv'')"
    by (simp add: open_w_def SAVE_PATH_eq parent_literal world_nodir_def)
  have sc: "save_config no_repr (Inr (JArr [])) world_nodir =
      on_error (OSError 2 ''No such file or directory'' ''SwapDatas/InputDatas.csv'') world_nodir"
    by (rule save_config_open_fails[OF o])
  show ?thesis unfolding sc
    by (simp add: on_error_def print_def world_nodir_def)
qed

text \<open>
  Claim C7, amended. It is the start of the process that ensures the folder, once, and not
  the handler. At the start, when the path \<open>SwapDatas\<close> exists, as a directory or as a
  regular file, nothing is done; when it does not exist, the directory is created, unless
  the operating system refuses, and then the start fails with that error. So after a start
  that did not fail the path exists, and is a directory unless it was a regular file
  before; no file has changed; and starting again changes nothing. The handler, on any
  device, never creates or removes a directory. When nothing exists at \<open>SwapDatas\<close> at the
  time of a request, every request with a JSON body gets the error response whose message
  is that of errno 2 (no such file or directory) for the path \<open>SwapDatas/InputDatas.csv\<close>,
  and the files are left as they were; when \<open>SwapDatas\<close> is a regular file the same holds
  with errno 20 (not a directory). After a start that did not fail, \<open>SwapDatas\<close> not being
  a regular file, the destination not being a directory and not being refused, the
  destination can be opened, and every request with an array of dicts that hold the three
  keys and whose fields can be encoded gets the success response, provided the device
  fails at no write and not at the close.
\<close>

theorem folder_ensured_at_startup:
  "(os_path_exists SAVE_FOLDER w \<longrightarrow> startup w = Inr w)
   \<and> (\<not> os_path_exists SAVE_FOLDER w \<and> denied w SAVE_FOLDER = None \<longrightarrow>
        startup w = Inr (w\<lparr>dirs := insert SAVE_FOLDER (dirs w)\<rparr>))
   \<and> (\<not> os_path_exists SAVE_FOLDER w \<and> denied w SAVE_FOLDER = Some (n, m) \<longrightarrow>
        startup w = Inl (OSError n m SAVE_FOLDER))
   \<and> (startup w = Inr w' \<longrightarrow>
        os_path_exists SAVE_FOLDER w'
        \<and> (SAVE_FOLDER \<notin> dom (files w) \<longrightarrow> SAVE_FOLDER \<in> dirs w')
        \<and> files w' = files w
        \<and> startup w' = Inr w')
   \<and> dirs (snd (save_config_on rp dev req w)) = dirs w
   \<and> (\<not> os_path_exists SAVE_FOLDER w \<longrightarrow>
        fst (save_config_on rp dev (Inr data) w) =
          \<lparr>status_code = 500, status = ''error'',
           message = exn_str (OSError 2 ''No such file or directory'' ''SwapDatas/InputDatas.csv'')\<rparr>
        \<and> files (snd (save_config_on rp dev (Inr data) w)) = files w)
   \<and> (SAVE_FOLDER \<in> dom (files w) \<longrightarrow>
        fst (save_config_on rp dev (Inr data) w) =
          \<lparr>status_code = 500, status = ''error'',
           message = exn_str (OSError 20 ''Not a directory'' ''SwapDatas/InputDatas.csv'')\<rparr>
        \<and> files (snd (save_config_on rp dev (Inr data) w)) = files w)
   \<and> (startup w = Inr w' \<and> SAVE_FOLDER \<notin> dom (files w) \<and> SAVE_PATH \<notin> dirs w
        \<and> denied w SAVE_PATH = None \<longrightarrow>
        can_open w'
        \<and> ((\<forall>i\<in>set items. has_keys i \<and> list_all encodable (item_fields rp i))
             \<and> no_fault dev (length items) \<longrightarrow>
             fst (save_config_on rp dev (Inr (JArr items)) w') =
               \<lparr>status_code = 200, status = ''success'',
                message = ustr ''Saved to SwapDatas/InputDatas.csv''\<rparr>))"
proof -
  have a1: "startup w = Inr w" if "os_path_exists SAVE_FOLDER w"
    using that by (simp add: startup_cases)
  have a2: "startup w = Inr (w\<lparr>dirs := insert SAVE_FOLDER (dirs w)\<rparr>)"
    if "\<not> os_path_exists SAVE_FOLDER w \<and> denied w SAVE_FOLDER = None"
    using that by (simp add: startup_cases)
  have a3: "startup w = Inl (OSError n m SAVE_FOLDER)"
    if "\<not> os_path_exists SAVE_FOLDER w \<and> denied w SAVE_FOLDER = Some (n, m)"
    using that by (simp add: startup_cases)
  have a4: "os_path_exists SAVE_FOLDER w'
        \<and> (SAVE_FOLDER \<notin> dom (files w) \<longrightarrow> SAVE_FOLDER \<in> dirs w')
        \<and> files w' = files w
        \<and> startup w' = Inr w'" if "startup w = Inr w'"
    using that
    by (auto simp: startup_cases os_path_exists_def split: if_splits option.splits)
  have b: "dirs (snd (save_config_on rp dev req w)) = dirs w"
    by (rule dirs_on)
  have c: "fst (save_config_on rp dev (Inr data) w) =
          \<lparr>status_code = 500, status = ''error'',
           message = exn_str (OSError 2 ''No such file or directory'' ''SwapDatas/InputDatas.csv'')\<rparr>
        \<and> files (snd (save_config_on rp dev (Inr data) w)) = files w"
    if "\<not> os_path_exists SAVE_FOLDER w"
    unfolding save_config_on_open_fails[OF open_no_folder[OF that]]
    by (simp add: on_error_def print_def)
  have d: "fst (save_config_on rp dev (Inr data) w) =
          \<lparr>status_code = 500, status = ''error'',
           message = exn_str (OSError 20 ''Not a directory'' ''SwapDatas/InputDatas.csv'')\<rparr>
        \<and> files (snd (save_config_on rp dev (Inr data) w)) = files w"
    if "SAVE_FOLDER \<in> dom (files w)"
    unfolding save_config_on_open_fails[OF open_folder_is_file[OF that]]
    by (simp add: on_error_def print_def)
  have e: "can_open w'
        \<and> ((\<forall>i\<in>set items. has_keys i \<and> list_all encodable (item_fields rp i))
             \<and> no_fault dev (length items) \<longrightarrow>
             fst (save_config_on rp dev (Inr (JArr items)) w') =
               \<lparr>status_code = 200, status = ''success'',
                message = ustr ''Saved to SwapDatas/InputDatas.csv''\<rparr>)"
    if s: "startup w = Inr w' \<and> SAVE_FOLDER \<notin> dom (files w) \<and> SAVE_PATH \<notin> dirs w
        \<and> denied w SAVE_PATH = None"
  proof -
    from s have o: "can_open w'" using can_open_started by blast
    have "fst (save_config_on rp dev (Inr (JArr items)) w') =
               \<lparr>status_code = 200, status = ''success'',
                message = ustr ''Saved to SwapDatas/InputDatas.csv''\<rparr>"
      if i: "(\<forall>i\<in>set items. has_keys i \<and> list_all encodable (item_fields rp i))
             \<and> no_fault dev (length items)"
    proof -
      from i have "list_all (item_ok rp) items" by (simp add: list_all_iff item_ok_fields)
      with o i have "raised_on rp dev (Inr (JArr items)) w' = None"
        by (simp add: raised_on_None_iff)
      then show ?thesis by (simp add: response_on_eq ok_response_def)
    qed
    with o show ?thesis by blast
  qed
  show ?thesis using a1 a2 a3 a4 b c d e by blast
qed

theorem folder_ensured_at_startup_witness:
  "\<not> os_path_exists SAVE_FOLDER world_nodir
   \<and> startup world_nodir = Inr world0
   \<and> SAVE_FOLDER \<in> dirs world0
   \<and> startup world0 = Inr world0
   \<and> can_open world0
   \<and> fst (save_config_on no_repr reliable (Inr example_body) world0) =
       \<lparr>status_code = 200, status = ''success'', message = ustr ''Saved to SwapDatas/InputDatas.csv''\<rparr>
   \<and> fst (save_config_on no_repr reliable (Inr example_body) world_nodir) =
       \<lparr>status_code = 500, status = ''error'',
        message = exn_str (OSError 2 ''No such file or directory'' ''SwapDatas/InputDatas.csv'')\<rparr>
   \<and> files (snd (save_config_on no_repr reliable (Inr example_body) world_nodir)) = files world_nodir
   \<and> startup (world_nodir\<lparr>denied := [SAVE_FOLDER \<mapsto> (13, ''Permission denied'')]\<rparr>) =
       Inl (OSError 13 ''Permission denied'' SAVE_FOLDER)
   \<and> startup (world_nodir\<lparr>files := [SAVE_FOLDER \<mapsto> []]\<rparr>) = Inr (world_nodir\<lparr>files := [SAVE_FOLDER \<mapsto> []]\<rparr>)
   \<and> fst (save_config_on no_repr reliable (Inr example_body) (world_nodir\<lparr>files := [SAVE_FOLDER \<mapsto> []]\<rparr>)) =
       \<lparr>status_code = 500, status = ''error'',
        message = exn_str (OSError 20 ''Not a directory'' ''SwapDatas/InputDatas.csv'')\<rparr>"
proof -
  let ?item = "obj (JStr (ustr ''Audio'')) (JStr (ustr ''Volume'')) (JInt 80)"
  let ?wd = "world_nodir\<lparr>denied := [SAVE_FOLDER \<mapsto> (13, ''Permission denied'')]\<rparr>"
  let ?wf = "world_nodir\<lparr>files := [SAVE_FOLDER \<mapsto> []]\<rparr>"
  have n: "\<not> os_path_exists SAVE_FOLDER world_nodir"
    by (simp add: os_path_exists_def world_nodir_def)
  have dn: "denied world_nodir SAVE_FOLDER = None" by (simp add: world_nodir_def)
  have w0: "world_nodir\<lparr>dirs := insert SAVE_FOLDER (dirs world_nodir)\<rparr> = world0"
    by (simp add: world_nodir_def world0_def SAVE_FOLDER_def)
  have p: "SAVE_FOLDER \<notin> dom (files world_nodir) \<and> SAVE_PATH \<notin> dirs world_nodir
      \<and> denied world_nodir SAVE_PATH = None"
    by (simp add: world_nodir_def)
  have nd: "\<not> os_path_exists SAVE_FOLDER ?wd \<and> denied ?wd SAVE_FOLDER = Some (13, ''Permission denied'')"
    by (simp add: os_path_exists_def world_nodir_def)
  have ef: "os_path_exists SAVE_FOLDER ?wf \<and> SAVE_FOLDER \<in> dom (files ?wf)"
    by (simp add: os_path_exists_def)
  have ex: "(\<forall>i\<in>set [?item]. has_keys i \<and> list_all encodable (item_fields no_repr i))
      \<and> no_fault reliable (length [?item])"
    using example_item_ok[of no_repr] by (simp add: item_ok_fields no_fault_def reliable_def)
  note t = folder_ensured_at_startup[of world_nodir 0 "''''" world0 no_repr reliable
      "Inr example_body" example_body "[?item]"]
  note td = folder_ensured_at_startup[of ?wd 13 "''Permission denied''" world0 no_repr reliable
      "Inr example_body" example_body "[?item]"]
  note tf = folder_ensured_at_startup[of ?wf 0 "''''" ?wf no_repr reliable
      "Inr example_body" example_body "[?item]"]
  from t n dn have s: "startup world_nodir = Inr world0" unfolding w0 by blast
  from t s p have e1: "SAVE_FOLDER \<in> dirs world0" and e2: "startup world0 = Inr world0"
    and e3: "can_open world0" by blast+
  from t s p ex have e4: "fst (save_config_on no_repr reliable (Inr (JArr [?item])) world0) =
       \<lparr>status_code = 200, status = ''success'', message = ustr ''Saved to SwapDatas/InputDatas.csv''\<rparr>"
    by blast
  from t n have e5: "fst (save_config_on no_repr reliable (Inr example_body) world_nodir) =
       \<lparr>status_code = 500, status = ''error'',
        message = exn_str (OSError 2 ''No such file or directory'' ''SwapDatas/InputDatas.csv'')\<rparr>
   \<and> files (snd (save_config_on no_repr reliable (Inr example_body) world_nodir)) = files world_nodir"
    by blast
  from td nd have e6: "startup ?wd = Inl (OSError 13 ''Permission denied'' SAVE_FOLDER)" by blast
  from tf ef have e7: "startup ?wf = Inr ?wf" by blast
  from tf ef have e8: "fst (save_config_on no_repr reliable (Inr example_body) ?wf) =
       \<lparr>status_code = 500, status = ''error'',
        message = exn_str (OSError 20 ''Not a directory'' ''SwapDatas/InputDatas.csv'')\<rparr>"
    by blast
  from e4 have e4': "fst (save_config_on no_repr reliable (Inr example_body) world0) =
       \<lparr>status_code = 200, status = ''success'', message = ustr ''Saved to SwapDatas/InputDatas.csv''\<rparr>"
    by (simp only: example_body_def)
  show ?thesis using n s e1 e2 e3 e4' e5 e6 e7 e8 by blast
qed

text \<open>The handler sees the world through the outcome of \<open>open\<close> only.\<close>

lemma open_outcome_None: "open_outcome w = None \<longleftrightarrow> can_open w"
  using can_open_iff[of w] by (cases "open_w SAVE_PATH w") (auto simp: open_outcome_def)

lemma can_open_same: "same_writability w1 w2 \<Longrightarrow> can_open w1 \<longleftrightarrow> can_open w2"
  using open_outcome_None[of w1] open_outcome_None[of w2] by (simp add: same_writability_def)

lemma raised_on_outcome:
  "raised_on rp dev req w =
     (case req of
        Inl e \<Rightarrow> Some e
      | Inr data \<Rightarrow>
          (case open_outcome w of
             Some e \<Rightarrow> Some e
           | None \<Rightarrow>
               (case close_fault dev of
                  Some (n, m) \<Rightarrow> Some (OSError_nofile n m)
                | None \<Rightarrow> body_raised rp dev data)))"
  by (simp add: raised_on_def open_outcome_def split: sum.splits)

lemma raised_on_same:
  "same_writability w1 w2 \<Longrightarrow> raised_on rp dev req w1 = raised_on rp dev req w2"
  unfolding raised_on_outcome same_writability_def by (cases req) simp_all

lemma file_on_early:
  assumes "req = Inl e \<or> \<not> can_open w"
  shows "files (snd (save_config_on rp dev req w)) = files w"
  using early_same[OF assms, of rp dev] file_unchanged_early[OF assms, of rp] by simp

lemma open_world_header:
  "open_w SAVE_PATH world_header = Inr (world_header\<lparr>files := (files world_header)(SAVE_PATH \<mapsto> [])\<rparr>)"
  by (simp add: open_w_def parent_literal world_header_def SAVE_PATH_eq)

lemma same_prior_header: "same_writability world_prior world_header"
  by (simp add: same_writability_def open_outcome_def open_world_prior open_world_header)

lemma same_world0_header: "same_writability world0 world_header"
  by (simp add: same_writability_def open_outcome_def open_world0 open_world_header)

section \<open>What the outcome depends on\<close>

text \<open>
  Claim C9, as the specification states it, fails: a request whose body is not JSON leaves
  the file as it was, so that with the same body and the same writability the contents of
  the file after the request differ when they differed before it.
\<close>

theorem file_depends_on_prior_counterexample:
  "same_writability world_prior world_header
   \<and> fst (save_config no_repr not_json world_prior) = fst (save_config no_repr not_json world_header)
   \<and> files (snd (save_config no_repr not_json world_prior)) SAVE_PATH
       \<noteq> files (snd (save_config no_repr not_json world_header)) SAVE_PATH
   \<and> files (snd (save_config_on no_repr reliable not_json world_prior)) SAVE_PATH
       \<noteq> files (snd (save_config_on no_repr reliable not_json world_header)) SAVE_PATH"
proof -
  have "files (snd (save_config no_repr not_json world_prior)) SAVE_PATH
       \<noteq> files (snd (save_config no_repr not_json world_header)) SAVE_PATH"
    by (simp add: not_json_def save_config_not_json world_prior_def world_header_def SAVE_PATH_eq
        ascii_def)
  moreover have "fst (save_config no_repr not_json world_prior) =
      fst (save_config no_repr not_json world_header)"
    by (simp add: not_json_def save_config_not_json on_error_def)
  ultimately show ?thesis using same_prior_header by (simp add: save_config_on_reliable)
qed

text \<open>
  Claim C9, amended. The handler is a function of what \<open>request.json\<close> gives (which the
  body and the Content-Type header of the request determine), of the world and of the
  behaviour of the device. Take two worlds in which opening the destination has the same
  outcome (it succeeds in both, or raises the same exception in both), the same request
  and the same device. The responses are equal. When the body is JSON and the destination
  can be opened, the contents of the file afterwards are equal too, being what the handler
  on that device leaves of that body; otherwise the files are, in each world, what they
  were before.
\<close>

theorem outcome_determined:
  assumes "same_writability w1 w2"
  shows "fst (save_config_on rp dev req w1) = fst (save_config_on rp dev req w2)
       \<and> (\<forall>data. req = Inr data \<and> can_open w1 \<longrightarrow>
            files (snd (save_config_on rp dev req w1)) SAVE_PATH = Some (written_on rp dev data)
            \<and> files (snd (save_config_on rp dev req w2)) SAVE_PATH = Some (written_on rp dev data))
       \<and> ((\<exists>e. req = Inl e) \<or> \<not> can_open w1 \<longrightarrow>
            files (snd (save_config_on rp dev req w1)) = files w1
            \<and> files (snd (save_config_on rp dev req w2)) = files w2)"
proof -
  have c: "can_open w1 \<longleftrightarrow> can_open w2" by (rule can_open_same[OF assms])
  have a: "fst (save_config_on rp dev req w1) = fst (save_config_on rp dev req w2)"
    by (simp add: response_on_eq raised_on_same[OF assms])
  have b: "files (snd (save_config_on rp dev req w1)) SAVE_PATH = Some (written_on rp dev data)
            \<and> files (snd (save_config_on rp dev req w2)) SAVE_PATH = Some (written_on rp dev data)"
    if "req = Inr data \<and> can_open w1" for data
    using that c file_on_opened[of w1 rp dev data] file_on_opened[of w2 rp dev data] by simp
  have d: "files (snd (save_config_on rp dev req w1)) = files w1
            \<and> files (snd (save_config_on rp dev req w2)) = files w2" if "(\<exists>e. req = Inl e) \<or> \<not> can_open w1"
  proof -
    from that c obtain e where "req = Inl e \<or> \<not> can_open w1" "req = Inl e \<or> \<not> can_open w2"
      by blast
    then show ?thesis using file_on_early[of req e w1 rp dev] file_on_early[of req e w2 rp dev]
      by blast
  qed
  show ?thesis using a b d by blast
qed

theorem outcome_determined_witness:
  "same_writability world0 world_header
   \<and> files world0 SAVE_PATH \<noteq> files world_header SAVE_PATH
   \<and> can_open world0
   \<and> fst (save_config_on no_repr reliable (Inr example_body) world0) =
       fst (save_config_on no_repr reliable (Inr example_body) world_header)
   \<and> files (snd (save_config_on no_repr reliable (Inr example_body) world0)) SAVE_PATH =
       files (snd (save_config_on no_repr reliable (Inr example_body) world_header)) SAVE_PATH
   \<and> files (snd (save_config_on no_repr full_device (Inr example_body) world0)) SAVE_PATH =
       files (snd (save_config_on no_repr full_device (Inr example_body) world_header)) SAVE_PATH
   \<and> files (snd (save_config_on no_repr reliable not_json world_header)) = files world_header"
proof -
  note t1 = outcome_determined[OF same_world0_header, of no_repr reliable "Inr example_body"]
  note t2 = outcome_determined[OF same_world0_header, of no_repr reliable not_json]
  note t3 = outcome_determined[OF same_world0_header, of no_repr full_device "Inr example_body"]
  have n: "\<exists>e. not_json = Inl e" by (simp add: not_json_def)
  have d: "files world0 SAVE_PATH \<noteq> files world_header SAVE_PATH"
    by (simp add: world0_def world_header_def SAVE_PATH_eq)
  from t1 can_open_world0
  have f1: "files (snd (save_config_on no_repr reliable (Inr example_body) world0)) SAVE_PATH =
       files (snd (save_config_on no_repr reliable (Inr example_body) world_header)) SAVE_PATH"
    by simp
  from t3 can_open_world0
  have f3: "files (snd (save_config_on no_repr full_device (Inr example_body) world0)) SAVE_PATH =
       files (snd (save_config_on no_repr full_device (Inr example_body) world_header)) SAVE_PATH"
    by simp
  from t2 n have f2: "files (snd (save_config_on no_repr reliable not_json world_header)) = files world_header"
    by blast
  from t1 have r: "fst (save_config_on no_repr reliable (Inr example_body) world0) =
       fst (save_config_on no_repr reliable (Inr example_body) world_header)" by blast
  show ?thesis using same_world0_header d can_open_world0 r f1 f3 f2 by blast
qed

text \<open>Texts that can be written are the texts of Unicode without surrogates.\<close>

lemma valid_text_iff: "valid_text t \<longleftrightarrow> unicode_text t \<and> encodable t"
  by (auto simp: valid_text_def unicode_text_def encodable_def valid_cp_def list_all_iff list_ex_iff)

lemma takeWhile_unicode_valid:
  assumes "list_all (\<lambda>i. list_all unicode_text (item_fields rp i)) items"
  shows "list_all (\<lambda>i. list_all valid_text (item_fields rp i)) (takeWhile (item_ok rp) items)"
proof -
  have "list_all valid_text (item_fields rp i)" if "i \<in> set (takeWhile (item_ok rp) items)" for i
  proof -
    from that have "i \<in> set items" and "item_ok rp i" by (auto dest: set_takeWhileD)
    then have "list_all unicode_text (item_fields rp i)" and "list_all encodable (item_fields rp i)"
      using assms by (auto simp: list_all_iff item_ok_fields)
    then show ?thesis by (auto simp: list_all_iff valid_text_iff)
  qed
  then show ?thesis by (simp add: list_all_iff)
qed

lemma written_file:
  "files (snd (save_config rp req w)) SAVE_PATH = files w SAVE_PATH
   \<or> (\<exists>items. list_all has_keys items
         \<and> (request_unicode rp req \<longrightarrow> list_all (\<lambda>i. list_all valid_text (item_fields rp i)) items)
         \<and> files (snd (save_config rp req w)) SAVE_PATH = Some (file_bytes rp items))"
proof (cases "(\<exists>e. req = Inl e) \<or> \<not> can_open w")
  case True
  then obtain e where "req = Inl e \<or> \<not> can_open w" by blast
  from file_unchanged_early[OF this, of rp] show ?thesis by simp
next
  case False
  then obtain data where d: "req = Inr data" and o: "can_open w" by (cases req) auto
  show ?thesis
  proof (cases "py_iter data")
    case (Inl e)
    have "files (snd (save_config rp req w)) SAVE_PATH = Some (file_bytes rp [])"
      using file_after_open[OF o, of rp data] Inl d by simp
    moreover have "list_all has_keys []" by simp
    ultimately show ?thesis by (intro disjI2 exI[of _ "[]"]) simp
  next
    case (Inr items)
    have f: "files (snd (save_config rp req w)) SAVE_PATH =
        Some (file_bytes rp (takeWhile (item_ok rp) items))"
      using file_after_open[OF o, of rp data] Inr d by simp
    have v: "list_all (\<lambda>i. list_all valid_text (item_fields rp i)) (takeWhile (item_ok rp) items)"
      if "request_unicode rp req"
      using that d Inr by (simp add: request_unicode_def takeWhile_unicode_valid)
    show ?thesis using f v takeWhile_ok_keys[of rp items]
      by (intro disjI2 exI[of _ "takeWhile (item_ok rp) items"]) simp
  qed
qed

lemma step_inv:
  assumes "request_unicode rp req" "\<not> device_failed rp dev req w"
  shows "files (snd (save_config_on rp dev req w)) SAVE_PATH = files w SAVE_PATH
       \<or> (\<exists>bs. files (snd (save_config_on rp dev req w)) SAVE_PATH = Some bs \<and> wf_file bs)"
  unfolding no_failure_same[OF assms(2)]
  using written_file[of rp req w] assms(1) wf_file_table by blast

lemma step_file_inv:
  assumes "request_unicode rp req" "\<not> device_failed rp dev req w" "file_inv w"
  shows "file_inv (snd (save_config_on rp dev req w))"
  using step_inv[OF assms(1,2)] assms(3) by (auto simp: file_inv_def)

lemma run_file_inv:
  "list_all (\<lambda>s. request_unicode rp (snd s)) steps \<Longrightarrow> no_device_failure rp steps w \<Longrightarrow>
   file_inv w \<Longrightarrow> file_inv (run_on rp steps w)"
  by (induction steps arbitrary: w) (simp_all add: step_file_inv)

lemma not_wf_empty: "\<not> wf_file []"
  by (simp add: wf_file_def read_csv_file_def utf_8_sig_decode_def BOM_UTF8_def csv_reader_def
      utf_8_decode_Nil reader_end)

lemma file_inv_world_header: "file_inv world_header"
proof -
  have "wf_file (file_bytes no_repr [])" by (rule wf_file_table) simp_all
  then show ?thesis
    by (simp add: file_inv_def world_header_def SAVE_PATH_eq file_bytes_Nil)
qed

lemma file_on_full:
  "can_open w \<Longrightarrow> files (snd (save_config_on rp full_device (Inr data) w)) SAVE_PATH = Some []"
  by (simp add: file_on_opened written_on_def full_device_def)


lemma surrogate_fields:
  "item_fields no_repr (obj (JStr (ustr ''a'')) (JStr (ustr ''b'')) (JStr [55357])) =
     [ustr ''a'', ustr ''b'', [55357]]"
  by (simp add: item_fields_def item_row_obj field_text_def)

lemma surrogate_not_ok:
  "\<not> item_ok no_repr (obj (JStr (ustr ''a'')) (JStr (ustr ''b'')) (JStr [55357]))"
  by (simp add: item_ok_fields surrogate_fields encodable_def is_surrogate_def)

lemma status_on_500_iff:
  "status_code (fst (save_config_on rp dev req w)) = 500 \<longleftrightarrow> raised_on rp dev req w \<noteq> None"
  by (simp add: response_on_eq ok_response_def error_response_def split: option.splits)

section \<open>The header row\<close>

text \<open>
  Claim C6, as the specification states it, fails: an invocation can leave a file that
  lacks the header. The file holds the header row; on a device that is full the file is
  opened, and so truncated, the rows are handed over, and the flush of the close fails
  with errno 28. The request is answered with status 500, and the file is left empty: it
  exists and has no header row.
\<close>

theorem header_lost_counterexample:
  "file_inv world_header
   \<and> files world_header SAVE_PATH = Some (BOM_UTF8 @ ascii ''Panel,Parameter,Value'' @ [13, 10])
   \<and> fst (save_config_on no_repr full_device (Inr example_body) world_header) =
       \<lparr>status_code = 500, status = ''error'', message = ustr ''[Errno 28] No space left on device''\<rparr>
   \<and> files (snd (save_config_on no_repr full_device (Inr example_body) world_header)) SAVE_PATH = Some []
   \<and> \<not> file_inv (snd (save_config_on no_repr full_device (Inr example_body) world_header))"
proof -
  have c: "can_open world_header" using can_open_iff open_world_header by blast
  have f: "files (snd (save_config_on no_repr full_device (Inr example_body) world_header)) SAVE_PATH = Some []"
    by (rule file_on_full[OF c])
  have r: "raised_on no_repr full_device (Inr example_body) world_header =
      Some (OSError_nofile 28 ''No space left on device'')"
    by (simp add: raised_on_def open_world_header full_device_def)
  have a: "fst (save_config_on no_repr full_device (Inr example_body) world_header) =
       \<lparr>status_code = 500, status = ''error'', message = ustr ''[Errno 28] No space left on device''\<rparr>"
    by (simp add: response_on_eq r error_response_def errno_28_text del: exn_str.simps)
  have h: "files world_header SAVE_PATH = Some (BOM_UTF8 @ ascii ''Panel,Parameter,Value'' @ [13, 10])"
    by (simp add: world_header_def SAVE_PATH_eq)
  have n: "\<not> file_inv (snd (save_config_on no_repr full_device (Inr example_body) world_header))"
    by (simp add: file_inv_def f not_wf_empty)
  show ?thesis using file_inv_world_header h a f n by blast
qed

text \<open>
  Claim C6, amended. Over every sequence of invocations, successful or failed, each on a
  device of its own, during none of which the device fails at a write or at the close: if
  the persisted file is absent or well-formed at the start, it is absent or well-formed at
  the end, where well-formed means that, read back, its first record is the header row
  \<open>Panel, Parameter, Value\<close> and every other record is a row of three fields. The texts
  of the requests are texts of Unicode, lone surrogates included, as those of every Python
  \<open>str\<close> are. One invocation during which the device does not fail either leaves the file
  as it was or leaves a well-formed file; and what it writes is the signature, the header
  record and records of three fields.
\<close>

theorem header_invariant:
  "(list_all (\<lambda>s. request_unicode rp (snd s)) steps \<and> no_device_failure rp steps w \<and> file_inv w
      \<longrightarrow> file_inv (run_on rp steps w))
   \<and> (request_unicode rp req \<and> \<not> device_failed rp dev req w \<longrightarrow>
        files (snd (save_config_on rp dev req w)) SAVE_PATH = files w SAVE_PATH
        \<or> (\<exists>bs. files (snd (save_config_on rp dev req w)) SAVE_PATH = Some bs \<and> wf_file bs))
   \<and> (\<not> device_failed rp dev req w \<longrightarrow>
        files (snd (save_config_on rp dev req w)) SAVE_PATH = files w SAVE_PATH
        \<or> (\<exists>rows. list_all (\<lambda>r. length r = 3) rows
              \<and> files (snd (save_config_on rp dev req w)) SAVE_PATH =
                  Some (BOM_UTF8 @ utf8 (concat (map csv_line (header_fields # rows))))))"
proof -
  have c: "files (snd (save_config_on rp dev req w)) SAVE_PATH = files w SAVE_PATH
        \<or> (\<exists>rows. list_all (\<lambda>r. length r = 3) rows
              \<and> files (snd (save_config_on rp dev req w)) SAVE_PATH =
                  Some (BOM_UTF8 @ utf8 (concat (map csv_line (header_fields # rows)))))"
    if q: "\<not> device_failed rp dev req w"
  proof (cases "files (snd (save_config rp req w)) SAVE_PATH = files w SAVE_PATH")
    case True
    then show ?thesis by (simp add: no_failure_same[OF q])
  next
    case False
    then obtain items where i: "list_all has_keys items"
        "files (snd (save_config rp req w)) SAVE_PATH = Some (file_bytes rp items)"
      using written_file[of rp req w] by blast
    have "list_all (\<lambda>r. length r = 3) (map (item_fields rp) items)"
      using i(1) by (simp add: list_all_iff length_item_fields)
    moreover have "file_bytes rp items =
        BOM_UTF8 @ utf8 (concat (map csv_line (header_fields # map (item_fields rp) items)))"
      by (simp only: file_bytes_def table_text_lines[OF i(1)])
    ultimately show ?thesis using i(2) unfolding no_failure_same[OF q] by auto
  qed
  have a: "file_inv (run_on rp steps w)"
    if "list_all (\<lambda>s. request_unicode rp (snd s)) steps \<and> no_device_failure rp steps w \<and> file_inv w"
    using that run_file_inv by blast
  have b: "files (snd (save_config_on rp dev req w)) SAVE_PATH = files w SAVE_PATH
        \<or> (\<exists>bs. files (snd (save_config_on rp dev req w)) SAVE_PATH = Some bs \<and> wf_file bs)"
    if "request_unicode rp req \<and> \<not> device_failed rp dev req w"
    using that step_inv by blast
  show ?thesis using a b c by blast
qed

theorem header_invariant_witness:
  "list_all (\<lambda>s. request_unicode no_repr (snd s))
     [(reliable, Inr example_body), (reliable, Inr body_missing_value), (reliable, not_json),
      (reliable, Inr (JArr [obj (JStr (ustr ''a'')) (JStr (ustr ''b'')) (JStr [55357])]))]
   \<and> no_device_failure no_repr
     [(reliable, Inr example_body), (reliable, Inr body_missing_value), (reliable, not_json),
      (reliable, Inr (JArr [obj (JStr (ustr ''a'')) (JStr (ustr ''b'')) (JStr [55357])]))] world0
   \<and> status_code (fst (save_config_on no_repr reliable
        (Inr (JArr [obj (JStr (ustr ''a'')) (JStr (ustr ''b'')) (JStr [55357])])) world0)) = 500
   \<and> file_inv world0
   \<and> file_inv (run_on no_repr
     [(reliable, Inr example_body), (reliable, Inr body_missing_value), (reliable, not_json),
      (reliable, Inr (JArr [obj (JStr (ustr ''a'')) (JStr (ustr ''b'')) (JStr [55357])]))] world0)
   \<and> \<not> device_failed no_repr reliable (Inr example_body) world0
   \<and> wf_file (BOM_UTF8 @ ascii ''Panel,Parameter,Value'' @ [13, 10] @ ascii ''Audio,Volume,80'' @ [13, 10])"
proof -
  let ?sur = "JArr [obj (JStr (ustr ''a'')) (JStr (ustr ''b'')) (JStr [55357])]"
  let ?steps = "[(reliable, Inr example_body), (reliable, Inr body_missing_value), (reliable, not_json),
      (reliable, Inr ?sur)]"
  have f1: "item_fields no_repr (obj (JStr (ustr ''Audio'')) (JStr (ustr ''Volume'')) (JInt 80))
       = [ustr ''Audio'', ustr ''Volume'', ustr ''80'']"
    by (simp add: item_fields_def item_row_obj field_text_def py_str_int_def dec_digits.simps ustr_def)
  have f2: "item_fields no_repr (obj (JStr (ustr ''a'')) (JStr (ustr ''b'')) (JInt 1))
       = [ustr ''a'', ustr ''b'', ustr ''1'']"
    by (simp add: item_fields_def item_row_obj field_text_def py_str_int_def dec_digits.simps ustr_def)
  have f3: "item_fields no_repr (JObj [(ustr ''panel'', JStr (ustr ''c'')), (ustr ''parameter'', JStr (ustr ''d''))])
       = []"
    by (simp add: item_fields_def item_row_def ustr_def)
  have f4: "item_fields no_repr (obj (JStr (ustr ''e'')) (JStr (ustr ''f'')) (JInt 2))
       = [ustr ''e'', ustr ''f'', ustr ''2'']"
    by (simp add: item_fields_def item_row_obj field_text_def py_str_int_def dec_digits.simps ustr_def)
  have v1: "request_unicode no_repr (Inr example_body)"
    by (simp add: request_unicode_def example_body_def f1)
       (simp add: unicode_text_def ustr_def)
  have v2: "request_unicode no_repr (Inr body_missing_value)"
    by (simp add: request_unicode_def body_missing_value_def f2 f3 f4)
       (simp add: unicode_text_def ustr_def)
  have v3: "request_unicode no_repr not_json"
    by (simp add: request_unicode_def not_json_def)
  have v4: "request_unicode no_repr (Inr ?sur)"
    by (simp add: request_unicode_def surrogate_fields)
       (simp add: unicode_text_def ustr_def)
  have v: "list_all (\<lambda>s. request_unicode no_repr (snd s)) ?steps"
    using v1 v2 v3 v4 by simp
  have d: "no_device_failure no_repr ?steps world0"
    by (simp add: reliable_never_fails)
  have s: "status_code (fst (save_config_on no_repr reliable (Inr ?sur) world0)) = 500"
    by (simp add: status_on_500_iff raised_on_None_iff surrogate_not_ok)
  have i: "file_inv world0" by (simp add: file_inv_def world0_def)
  from header_invariant[of no_repr ?steps world0] v d i
  have r: "file_inv (run_on no_repr ?steps world0)" by blast
  have q: "\<not> device_failed no_repr reliable (Inr example_body) world0"
    by (rule reliable_never_fails)
  have fa: "files (snd (save_config_on no_repr reliable (Inr example_body) world0)) SAVE_PATH =
      Some (BOM_UTF8 @ ascii ''Panel,Parameter,Value'' @ [13, 10] @ ascii ''Audio,Volume,80'' @ [13, 10])"
    using file_after_open[OF can_open_world0, of no_repr example_body]
    by (simp add: save_config_on_reliable example_body_def example_item_ok example_file_bytes)
  have fb: "files world0 SAVE_PATH = None" by (simp add: world0_def)
  from header_invariant[of no_repr "[]" world0 "Inr example_body" reliable] v1 q
  have "files (snd (save_config_on no_repr reliable (Inr example_body) world0)) SAVE_PATH =
          files world0 SAVE_PATH
        \<or> (\<exists>bs. files (snd (save_config_on no_repr reliable (Inr example_body) world0)) SAVE_PATH =
               Some bs \<and> wf_file bs)"
    by blast
  then have w: "wf_file (BOM_UTF8 @ ascii ''Panel,Parameter,Value'' @ [13, 10] @ ascii ''Audio,Volume,80'' @ [13, 10])"
    unfolding fa fb by simp
  show ?thesis using v d s i r q w by blast
qed

end
